theory Spec2Isabelle
  imports Main "HOL-Library.Multiset" "HOL-Library.Char_ord" "HOL-Library.List_Lexorder"
    "HOL-Library.Word"
begin

section \<open>Data model\<close>

text \<open>
  The embedding follows \<^verbatim>\<open>search/parquet_queriable.go\<close>. Go strings are byte
  strings compared bytewise; \<open>string\<close> with the lexicographic order of
  \<open>List_Lexorder\<close> over the byte order of \<open>Char_ord\<close> is that comparison.
  \<open>int64\<close> time stamps and the \<open>int\<close> limit are never used in arithmetic here, they are
  only passed on and compared, so they are \<open>int\<close>.
\<close>

datatype error = Error string

datatype MatchType = MatchEqual | MatchNotEqual | MatchRegexp | MatchNotRegexp

record Matcher =
  Type :: MatchType
  Name :: string
  Value :: string

text \<open>A label is a (name, value) pair; a label set is the list of its labels.\<close>

type_synonym Label = "string \<times> string"
type_synonym Labels = "Label list"

text \<open>
  A sample is a time stamp and a value; the value is a \<^verbatim>\<open>float64\<close>, kept as its 64
  bits, since no arithmetic is done on it.
\<close>

type_synonym Sample = "int \<times> 64 word"

text \<open>
  \<^verbatim>\<open>chunks.Meta\<close>: one chunk with the time range it covers. The chunk is kept as the
  samples that its iterator yields, in that order.
\<close>

record Meta =
  MinTime :: int
  MaxTime :: int
  Chunk :: "Sample list"

text \<open>\<^verbatim>\<open>storage.ChunkSeries\<close>: a label set and its chunks, in iteration order.\<close>

record ChunkSeries =
  Lset :: Labels
  Chks :: "Meta list"

record SelectHints =
  Start :: int
  End :: int

record LabelHints =
  Limit :: int

subsection \<open>Calls into code outside the file\<close>

text \<open>
  Every call that leaves the file is recorded, in program order, with its outcome
  (\<open>None\<close> for success). The row-group index of the per-group calls is kept.
\<close>

datatype opname =
    CallMatchersToConstraint
  | CallInitialize
  | CallFilter nat
  | CallMaterialize nat
  | CallMaterializeLabelNames nat
  | CallMaterializeLabelValues nat
  | CallFromLabelsFile
  | CallNewMaterializer

type_synonym call = "opname \<times> error option"

text \<open>
  The state threaded through a query: \<open>world\<close> is everything the called code can read
  and change (file contents, caches, the cancellation state of the context), \<open>calls\<close>
  the record of the calls made so far.
\<close>

record 'w st =
  world :: 'w
  calls :: "call list"

text \<open>
  The functions the file calls and does not define. Each fallible one takes the world
  and returns an error or a value together with the new world. The type variables are
  the opaque types of the called packages: \<open>'c\<close> a constraint, \<open>'s\<close> a parquet schema,
  \<open>'g\<close> a row group, \<open>'r\<close> the row ranges of a filter result, \<open>'m\<close> a
  \<^verbatim>\<open>*Materializer\<close>, \<open>'f\<close> a \<^verbatim>\<open>*parquet.File\<close>, \<open>'t\<close> the schema derived from a labels
  file, \<open>'d\<close> the chunks decoder. \<open>Initialize\<close> binds the constraints it is given in
  place; the model returns them. \<open>sort_Sort\<close> is \<^verbatim>\<open>sort.Sort\<close> at \<^verbatim>\<open>byLabels\<close>, given
  the \<^verbatim>\<open>Less\<close> of the sorted value.
\<close>

record ('w, 'c, 's, 'g, 'r, 'm, 'f, 't, 'd) extern =
  MatchersToConstraint :: "Matcher list \<Rightarrow> 'w \<Rightarrow> (error + 'c list) \<times> 'w"
  Initialize :: "'s \<Rightarrow> 'c list \<Rightarrow> 'w \<Rightarrow> (error + 'c list) \<times> 'w"
  Filter :: "'g \<Rightarrow> 'c list \<Rightarrow> 'w \<Rightarrow> (error + 'r) \<times> 'w"
  Materialize :: "'m \<Rightarrow> nat \<Rightarrow> int \<Rightarrow> int \<Rightarrow> 'r \<Rightarrow> 'w \<Rightarrow> (error + ChunkSeries list) \<times> 'w"
  MaterializeLabelNames :: "'m \<Rightarrow> nat \<Rightarrow> 'r \<Rightarrow> 'w \<Rightarrow> (error + string list) \<times> 'w"
  MaterializeLabelValues :: "'m \<Rightarrow> string \<Rightarrow> nat \<Rightarrow> 'r \<Rightarrow> 'w \<Rightarrow> (error + string list) \<times> 'w"
  FromLabelsFile :: "'f \<Rightarrow> 'w \<Rightarrow> (error + 't) \<times> 'w"
  NewMaterializer :: "'t \<Rightarrow> 'd \<Rightarrow> 'f \<Rightarrow> 'f \<Rightarrow> 'w \<Rightarrow> (error + 'm) \<times> 'w"
  Schema :: "'f \<Rightarrow> 'w \<Rightarrow> 's"
  RowGroups :: "'f \<Rightarrow> 'w \<Rightarrow> 'g list"
  sort_Sort :: "(ChunkSeries \<Rightarrow> ChunkSeries \<Rightarrow> bool) \<Rightarrow> ChunkSeries list \<Rightarrow> ChunkSeries list"

definition invoke :: "opname \<Rightarrow> ('w \<Rightarrow> (error + 'a) \<times> 'w) \<Rightarrow> 'w st \<Rightarrow> (error + 'a) \<times> 'w st" where
  "invoke k f s =
     (case f (world s) of
        (r, w') \<Rightarrow>
          (r, \<lparr>world = w', calls = calls s @ [(k, case r of Inl e \<Rightarrow> Some e | Inr _ \<Rightarrow> None)]\<rparr>))"

subsection \<open>Label comparison\<close>

text \<open>
  \<^verbatim>\<open>labels.Compare\<close>: label by label, name before value; when one label set is a
  prefix of the other the shorter one comes first.
\<close>

fun Compare :: "Labels \<Rightarrow> Labels \<Rightarrow> int" where
  "Compare [] b = - int (length b)"
| "Compare (x # a) [] = int (length (x # a))"
| "Compare ((an, av) # a) ((bn, bv) # b) =
     (if an \<noteq> bn then (if an < bn then - 1 else 1)
      else if av \<noteq> bv then (if av < bv then - 1 else 1)
      else Compare a b)"

text \<open>\<^verbatim>\<open>byLabels.Less\<close>.\<close>

definition byLabels_Less :: "ChunkSeries \<Rightarrow> ChunkSeries \<Rightarrow> bool" where
  "byLabels_Less x y = (Compare (Lset x) (Lset y) < 0)"

section \<open>Blocks\<close>

record ('f, 'm) ParquetBlock =
  lf :: 'f
  cf :: 'f
  m :: 'm

definition NewParquetBlock ::
  "('w, 'c, 's, 'g, 'r, 'm, 'f, 't, 'd) extern \<Rightarrow> 'f \<Rightarrow> 'f \<Rightarrow> 'd \<Rightarrow> 'w st
     \<Rightarrow> (error + ('f, 'm) ParquetBlock) \<times> 'w st" where
  "NewParquetBlock cb lf0 cf0 d s =
     (case invoke CallFromLabelsFile (FromLabelsFile cb lf0) s of
        (Inl err, s1) \<Rightarrow> (Inl err, s1)
      | (Inr sch, s1) \<Rightarrow>
          (case invoke CallNewMaterializer (NewMaterializer cb sch d lf0 cf0) s1 of
             (Inl err, s2) \<Rightarrow> (Inl err, s2)
           | (Inr mat, s2) \<Rightarrow> (Inr \<lparr>lf = lf0, cf = cf0, m = mat\<rparr>, s2)))"

text \<open>
  Modelled from the spec: \<^verbatim>\<open>convert.NewChunksSeriesSet\<close> is not among the sources. The
  spec's SeriesSet is the "per-query, per-block ordered collection of ChunkSeries": the
  set iterates the slice it was built from, in order.
\<close>

definition NewChunksSeriesSet :: "ChunkSeries list \<Rightarrow> ChunkSeries list" where
  "NewChunksSeriesSet results = results"

text \<open>The loop of \<^verbatim>\<open>ParquetBlock.query\<close> over the row groups of the labels file.\<close>

fun query_groups ::
  "('w, 'c, 's, 'g, 'r, 'm, 'f, 't, 'd) extern \<Rightarrow> 'm \<Rightarrow> int \<Rightarrow> int \<Rightarrow> 'c list \<Rightarrow> nat \<Rightarrow> 'g list
     \<Rightarrow> ChunkSeries list \<Rightarrow> 'w st \<Rightarrow> (error + ChunkSeries list) \<times> 'w st" where
  "query_groups cb mat minT maxT cs i [] results s = (Inr results, s)"
| "query_groups cb mat minT maxT cs i (grp # groups) results s =
     (case invoke (CallFilter i) (Filter cb grp cs) s of
        (Inl err, s1) \<Rightarrow> (Inl err, s1)
      | (Inr rr, s1) \<Rightarrow>
          (case invoke (CallMaterialize i) (Materialize cb mat i minT maxT rr) s1 of
             (Inl err, s2) \<Rightarrow> (Inl err, s2)
           | (Inr series, s2) \<Rightarrow>
               query_groups cb mat minT maxT cs (Suc i) groups (results @ series) s2))"

definition query ::
  "('w, 'c, 's, 'g, 'r, 'm, 'f, 't, 'd) extern \<Rightarrow> ('f, 'm) ParquetBlock \<Rightarrow> bool \<Rightarrow> int \<Rightarrow> int
     \<Rightarrow> Matcher list \<Rightarrow> 'w st \<Rightarrow> (error + ChunkSeries list) \<times> 'w st" where
  "query cb b sorted' minT maxT matchers s =
     (case invoke CallMatchersToConstraint (MatchersToConstraint cb matchers) s of
        (Inl err, s1) \<Rightarrow> (Inl err, s1)
      | (Inr cs, s1) \<Rightarrow>
          (case invoke CallInitialize (Initialize cb (Schema cb (lf b) (world s1)) cs) s1 of
             (Inl err, s2) \<Rightarrow> (Inl err, s2)
           | (Inr cs', s2) \<Rightarrow>
               (case query_groups cb (m b) minT maxT cs' 0 (RowGroups cb (lf b) (world s2)) [] s2 of
                  (Inl err, s3) \<Rightarrow> (Inl err, s3)
                | (Inr results, s3) \<Rightarrow>
                    (Inr (NewChunksSeriesSet
                            (if sorted' then sort_Sort cb byLabels_Less results else results)),
                     s3))))"

text \<open>The loops of \<^verbatim>\<open>labelNames\<close> and \<^verbatim>\<open>labelValues\<close>: one result list per row group.\<close>

fun labelNames_groups ::
  "('w, 'c, 's, 'g, 'r, 'm, 'f, 't, 'd) extern \<Rightarrow> 'm \<Rightarrow> 'c list \<Rightarrow> nat \<Rightarrow> 'g list
     \<Rightarrow> string list list \<Rightarrow> 'w st \<Rightarrow> (error + string list list) \<times> 'w st" where
  "labelNames_groups cb mat cs i [] results s = (Inr results, s)"
| "labelNames_groups cb mat cs i (grp # groups) results s =
     (case invoke (CallFilter i) (Filter cb grp cs) s of
        (Inl err, s1) \<Rightarrow> (Inl err, s1)
      | (Inr rr, s1) \<Rightarrow>
          (case invoke (CallMaterializeLabelNames i) (MaterializeLabelNames cb mat i rr) s1 of
             (Inl err, s2) \<Rightarrow> (Inl err, s2)
           | (Inr series, s2) \<Rightarrow>
               labelNames_groups cb mat cs (Suc i) groups (results @ [series]) s2))"

definition labelNames ::
  "('w, 'c, 's, 'g, 'r, 'm, 'f, 't, 'd) extern \<Rightarrow> ('f, 'm) ParquetBlock \<Rightarrow> Matcher list \<Rightarrow> 'w st
     \<Rightarrow> (error + string list list) \<times> 'w st" where
  "labelNames cb b matchers s =
     (case invoke CallMatchersToConstraint (MatchersToConstraint cb matchers) s of
        (Inl err, s1) \<Rightarrow> (Inl err, s1)
      | (Inr cs, s1) \<Rightarrow>
          (case invoke CallInitialize (Initialize cb (Schema cb (lf b) (world s1)) cs) s1 of
             (Inl err, s2) \<Rightarrow> (Inl err, s2)
           | (Inr cs', s2) \<Rightarrow>
               labelNames_groups cb (m b) cs' 0 (RowGroups cb (lf b) (world s2)) [] s2))"

fun labelValues_groups ::
  "('w, 'c, 's, 'g, 'r, 'm, 'f, 't, 'd) extern \<Rightarrow> 'm \<Rightarrow> string \<Rightarrow> 'c list \<Rightarrow> nat \<Rightarrow> 'g list
     \<Rightarrow> string list list \<Rightarrow> 'w st \<Rightarrow> (error + string list list) \<times> 'w st" where
  "labelValues_groups cb mat name cs i [] results s = (Inr results, s)"
| "labelValues_groups cb mat name cs i (grp # groups) results s =
     (case invoke (CallFilter i) (Filter cb grp cs) s of
        (Inl err, s1) \<Rightarrow> (Inl err, s1)
      | (Inr rr, s1) \<Rightarrow>
          (case invoke (CallMaterializeLabelValues i) (MaterializeLabelValues cb mat name i rr) s1 of
             (Inl err, s2) \<Rightarrow> (Inl err, s2)
           | (Inr series, s2) \<Rightarrow>
               labelValues_groups cb mat name cs (Suc i) groups (results @ [series]) s2))"

definition labelValues ::
  "('w, 'c, 's, 'g, 'r, 'm, 'f, 't, 'd) extern \<Rightarrow> ('f, 'm) ParquetBlock \<Rightarrow> string \<Rightarrow> Matcher list
     \<Rightarrow> 'w st \<Rightarrow> (error + string list list) \<times> 'w st" where
  "labelValues cb b name matchers s =
     (case invoke CallMatchersToConstraint (MatchersToConstraint cb matchers) s of
        (Inl err, s1) \<Rightarrow> (Inl err, s1)
      | (Inr cs, s1) \<Rightarrow>
          (case invoke CallInitialize (Initialize cb (Schema cb (lf b) (world s1)) cs) s1 of
             (Inl err, s2) \<Rightarrow> (Inl err, s2)
           | (Inr cs', s2) \<Rightarrow>
               labelValues_groups cb (m b) name cs' 0 (RowGroups cb (lf b) (world s2)) [] s2))"

section \<open>Merging\<close>

text \<open>
  Prometheus' \<^verbatim>\<open>storage.NewConcatenatingChunkSeriesMerger\<close>: the merged series has the
  labels of the first series and the chunks of all of them, one series after the
  other in argument order. Without a series there is no result (\<^verbatim>\<open>nil\<close>).
\<close>

definition NewConcatenatingChunkSeriesMerger :: "ChunkSeries list \<Rightarrow> ChunkSeries option" where
  "NewConcatenatingChunkSeriesMerger series =
     (case series of
        [] \<Rightarrow> None
      | x # _ \<Rightarrow> Some \<lparr>Lset = Lset x, Chks = concat (map Chks series)\<rparr>)"

text \<open>The sets that still have a series, each split into its front series and the rest.\<close>

fun fronts :: "'a list list \<Rightarrow> ('a \<times> 'a list) list" where
  "fronts [] = []"
| "fronts ([] # ss) = fronts ss"
| "fronts ((x # xs) # ss) = (x, xs) # fronts ss"

text \<open>The least label set of a non-empty list under the comparison; the first one on a tie.\<close>

fun least_labels :: "(Labels \<Rightarrow> Labels \<Rightarrow> int) \<Rightarrow> Labels \<Rightarrow> Labels list \<Rightarrow> Labels" where
  "least_labels cmp cur [] = cur"
| "least_labels cmp cur (l # ls) = least_labels cmp (if cmp l cur < 0 then l else cur) ls"

text \<open>Moving on the sets whose front series has the label set \<open>cur\<close>.\<close>

definition advance :: "Labels \<Rightarrow> (ChunkSeries \<times> ChunkSeries list) list \<Rightarrow> ChunkSeries list list" where
  "advance cur live = map (\<lambda>p. if Lset (fst p) = cur then snd p else fst p # snd p) live"

lemma least_labels_in: "least_labels cmp cur ls \<in> set (cur # ls)"
  by (induction ls arbitrary: cur) auto

lemma sum_length_fronts: "(\<Sum>p\<leftarrow>fronts sets. Suc (length (snd p))) = (\<Sum>s\<leftarrow>sets. length s)"
  by (induction sets rule: fronts.induct) auto

lemma sum_length_advance_le:
  "(\<Sum>s\<leftarrow>advance cur live. length s) \<le> (\<Sum>p\<leftarrow>live. Suc (length (snd p)))"
  by (induction live) (auto simp: advance_def)

lemma sum_length_advance_less:
  "cur \<in> set (map (\<lambda>p. Lset (fst p)) live) \<Longrightarrow>
   (\<Sum>s\<leftarrow>advance cur live. length s) < (\<Sum>p\<leftarrow>live. Suc (length (snd p)))"
proof (induction live)
  case Nil
  then show ?case by simp
next
  case (Cons p live)
  show ?case
  proof (cases "Lset (fst p) = cur")
    case True
    have "(\<Sum>s\<leftarrow>advance cur live. length s) \<le> (\<Sum>p\<leftarrow>live. Suc (length (snd p)))"
      by (rule sum_length_advance_le)
    with True show ?thesis by (simp add: advance_def)
  next
    case False
    with Cons.prems have "cur \<in> set (map (\<lambda>p. Lset (fst p)) live)" by auto
    from Cons.IH [OF this] False show ?thesis by (simp add: advance_def)
  qed
qed

text \<open>
  Modelled from the spec: \<^verbatim>\<open>convert.NewMergeChunkSeriesSet\<close> is not among the sources.
  The spec's MergedSeriesSet is the "cross-block union; two ChunkSeries with identical
  label sets from different blocks merge into one series", and sorted output "must be
  globally ordered by label-set comparison". The model is the merge of the per-block
  sets under the comparison it is given: it takes the least label set among the front
  series of the sets, hands the front series with that label set (at most one per
  block, in block order) to the merge function it is given, and moves those sets on.
\<close>

function NewMergeChunkSeriesSet ::
  "ChunkSeries list list \<Rightarrow> (Labels \<Rightarrow> Labels \<Rightarrow> int) \<Rightarrow> (ChunkSeries list \<Rightarrow> ChunkSeries option)
     \<Rightarrow> ChunkSeries list" where
  "NewMergeChunkSeriesSet sets cmp mergeFunc =
     (case fronts sets of
        [] \<Rightarrow> []
      | (x, xs) # rest \<Rightarrow>
          (let cur = least_labels cmp (Lset x) (map (\<lambda>p. Lset (fst p)) rest);
               currentSets = filter (\<lambda>p. Lset (fst p) = cur) ((x, xs) # rest)
           in (case mergeFunc (map fst currentSets) of None \<Rightarrow> [] | Some y \<Rightarrow> [y]) @
              NewMergeChunkSeriesSet (advance cur ((x, xs) # rest)) cmp mergeFunc))"
  by pat_completeness auto
termination
proof (relation "measure (\<lambda>(sets, cmp, mergeFunc). \<Sum>s\<leftarrow>sets. length s)", goal_cases)
  case 1
  show ?case by simp
next
  case (2 sets cmp mergeFunc p rest x xs cur currentSets)
  from 2 have fr: "fronts sets = (x, xs) # rest" by simp
  have "cur \<in> set (map (\<lambda>p. Lset (fst p)) ((x, xs) # rest))"
    using least_labels_in [of cmp "Lset x" "map (\<lambda>p. Lset (fst p)) rest"] 2(3) by simp
  from sum_length_advance_less [OF this] sum_length_fronts [of sets] fr
  show ?case by simp
qed

text \<open>
  Prometheus' \<^verbatim>\<open>storage.NewSeriesSetFromChunkSeriesSet\<close> presents a chunk series set as
  a series set. The series of the set are those of the chunk series set, one for one and
  in the same order, each with the labels of its chunk series. A series is read lazily,
  through \<^verbatim>\<open>storage.ChainedSeriesMerge\<close> over the chunks of its chunk series: its
  iterator yields the samples of all these chunks in the order of time, and a time
  stamp that several chunks hold is yielded once, with the sample of one of them. The
  model keeps each series as the chunk series it reads, and \<open>Samples\<close> is what its
  iterator yields. For a chunk series without chunks the real set holds \<^verbatim>\<open>nil\<close> in
  place of a series; in the model this is the series without chunks.
\<close>

definition NewSeriesSetFromChunkSeriesSet :: "ChunkSeries list \<Rightarrow> ChunkSeries list" where
  "NewSeriesSetFromChunkSeriesSet chk = chk"

text \<open>
  Chaining two sample streams that are each in the order of time: the earlier sample
  first, and of two samples with the same time stamp the one of the first stream.
\<close>

fun chain :: "Sample list \<Rightarrow> Sample list \<Rightarrow> Sample list" where
  "chain [] ys = ys"
| "chain (x # xs) [] = x # xs"
| "chain (x # xs) (y # ys) =
     (if fst x < fst y then x # chain xs (y # ys)
      else if fst y < fst x then y # chain (x # xs) ys
      else x # chain xs ys)"

definition Samples :: "ChunkSeries \<Rightarrow> Sample list" where
  "Samples x = foldr chain (map Chunk (Chks x)) []"

text \<open>
  Modelled from the spec: \<^verbatim>\<open>util.MergeUnsortedSlices\<close> is not among the sources. The
  spec has the label lists merged "by deduplicating, sorting ascending, and -- if limit
  is greater than zero -- truncating to the first limit entries after sorting; limit of
  zero means unlimited".
\<close>

definition MergeUnsortedSlices :: "int \<Rightarrow> string list list \<Rightarrow> string list" where
  "MergeUnsortedSlices limit slices =
     (let merged = sort (remdups (concat slices))
      in if limit > 0 then take (nat limit) merged else merged)"

section \<open>The queryable and the querier\<close>

record ('f, 'm) parquetQueryable =
  blocks :: "('f, 'm) ParquetBlock list"

record ('f, 'm) parquetQuerier =
  mint :: int
  maxt :: int
  blocks :: "('f, 'm) ParquetBlock list"

definition NewParquetQueryable :: "('f, 'm) ParquetBlock list \<Rightarrow> error + ('f, 'm) parquetQueryable" where
  "NewParquetQueryable bs = Inr \<lparr>parquetQueryable.blocks = bs\<rparr>"

definition Querier :: "('f, 'm) parquetQueryable \<Rightarrow> int \<Rightarrow> int \<Rightarrow> error + ('f, 'm) parquetQuerier" where
  "Querier p minT maxT = Inr \<lparr>mint = minT, maxt = maxT, blocks = parquetQueryable.blocks p\<rparr>"

text \<open>The loop of \<^verbatim>\<open>LabelValues\<close> over the blocks.\<close>

fun LabelValues_blocks ::
  "('w, 'c, 's, 'g, 'r, 'm, 'f, 't, 'd) extern \<Rightarrow> ('f, 'm) ParquetBlock list \<Rightarrow> string
     \<Rightarrow> Matcher list \<Rightarrow> string list list \<Rightarrow> 'w st \<Rightarrow> (error + string list list) \<times> 'w st" where
  "LabelValues_blocks cb [] name matchers resNameValues s = (Inr resNameValues, s)"
| "LabelValues_blocks cb (b # bs) name matchers resNameValues s =
     (case labelValues cb b name matchers s of
        (Inl err, s1) \<Rightarrow> (Inl err, s1)
      | (Inr r, s1) \<Rightarrow> LabelValues_blocks cb bs name matchers (resNameValues @ r) s1)"

definition LabelValues ::
  "('w, 'c, 's, 'g, 'r, 'm, 'f, 't, 'd) extern \<Rightarrow> ('f, 'm) parquetQuerier \<Rightarrow> string
     \<Rightarrow> LabelHints option \<Rightarrow> Matcher list \<Rightarrow> 'w st \<Rightarrow> (error + string list) \<times> 'w st" where
  "LabelValues cb p name hints matchers s =
     (let limit = (case hints of None \<Rightarrow> 0 | Some h \<Rightarrow> Limit h)
      in case LabelValues_blocks cb (blocks p) name matchers [] s of
           (Inl err, s1) \<Rightarrow> (Inl err, s1)
         | (Inr resNameValues, s1) \<Rightarrow> (Inr (MergeUnsortedSlices limit resNameValues), s1))"

text \<open>The loop of \<^verbatim>\<open>LabelNames\<close> over the blocks.\<close>

fun LabelNames_blocks ::
  "('w, 'c, 's, 'g, 'r, 'm, 'f, 't, 'd) extern \<Rightarrow> ('f, 'm) ParquetBlock list
     \<Rightarrow> Matcher list \<Rightarrow> string list list \<Rightarrow> 'w st \<Rightarrow> (error + string list list) \<times> 'w st" where
  "LabelNames_blocks cb [] matchers resNameSets s = (Inr resNameSets, s)"
| "LabelNames_blocks cb (b # bs) matchers resNameSets s =
     (case labelNames cb b matchers s of
        (Inl err, s1) \<Rightarrow> (Inl err, s1)
      | (Inr r, s1) \<Rightarrow> LabelNames_blocks cb bs matchers (resNameSets @ r) s1)"

definition LabelNames ::
  "('w, 'c, 's, 'g, 'r, 'm, 'f, 't, 'd) extern \<Rightarrow> ('f, 'm) parquetQuerier
     \<Rightarrow> LabelHints option \<Rightarrow> Matcher list \<Rightarrow> 'w st \<Rightarrow> (error + string list) \<times> 'w st" where
  "LabelNames cb p hints matchers s =
     (let limit = (case hints of None \<Rightarrow> 0 | Some h \<Rightarrow> Limit h)
      in case LabelNames_blocks cb (blocks p) matchers [] s of
           (Inl err, s1) \<Rightarrow> (Inl err, s1)
         | (Inr resNameSets, s1) \<Rightarrow> (Inr (MergeUnsortedSlices limit resNameSets), s1))"

text \<open>
  The loop of \<^verbatim>\<open>Select\<close> over the blocks; \<open>seriesSet\<close> holds the sets of the blocks
  done so far, in block order.
\<close>

fun Select_blocks ::
  "('w, 'c, 's, 'g, 'r, 'm, 'f, 't, 'd) extern \<Rightarrow> ('f, 'm) ParquetBlock list \<Rightarrow> bool \<Rightarrow> int \<Rightarrow> int
     \<Rightarrow> Matcher list \<Rightarrow> ChunkSeries list list \<Rightarrow> 'w st
     \<Rightarrow> (error + ChunkSeries list list) \<times> 'w st" where
  "Select_blocks cb [] sorted' minT maxT matchers seriesSet s = (Inr seriesSet, s)"
| "Select_blocks cb (block # bs) sorted' minT maxT matchers seriesSet s =
     (case query cb block sorted' minT maxT matchers s of
        (Inl err, s1) \<Rightarrow> (Inl err, s1)
      | (Inr ss, s1) \<Rightarrow> Select_blocks cb bs sorted' minT maxT matchers (seriesSet @ [ss]) s1)"

text \<open>
  \<^verbatim>\<open>Select\<close>. The series set it returns is either the error set
  (\<^verbatim>\<open>storage.ErrSeriesSet\<close>) or the merged set.
\<close>

definition Select ::
  "('w, 'c, 's, 'g, 'r, 'm, 'f, 't, 'd) extern \<Rightarrow> ('f, 'm) parquetQuerier \<Rightarrow> bool
     \<Rightarrow> SelectHints option \<Rightarrow> Matcher list \<Rightarrow> 'w st \<Rightarrow> (error + ChunkSeries list) \<times> 'w st" where
  "Select cb p sorted' sp matchers s =
     (let (minT, maxT) = (case sp of None \<Rightarrow> (mint p, maxt p) | Some h \<Rightarrow> (Start h, End h))
      in case Select_blocks cb (blocks p) sorted' minT maxT matchers [] s of
           (Inl err, s1) \<Rightarrow> (Inl err, s1)
         | (Inr seriesSet, s1) \<Rightarrow>
             (Inr (NewSeriesSetFromChunkSeriesSet
                     (NewMergeChunkSeriesSet seriesSet Compare NewConcatenatingChunkSeriesMerger)),
              s1))"

section \<open>Properties of results\<close>

text \<open>
  Running an operation on each element of a list in turn, each run from the state the
  run before left: the values returned and the last state, when every run returns a
  value.
\<close>

fun each_in_turn :: "('b \<Rightarrow> 's \<Rightarrow> ('e + 'a) \<times> 's) \<Rightarrow> 'b list \<Rightarrow> 's \<Rightarrow> ('a list \<times> 's) option" where
  "each_in_turn f [] s = Some ([], s)"
| "each_in_turn f (x # xs) s =
     (case f x s of
        (Inl e, s1) \<Rightarrow> None
      | (Inr r, s1) \<Rightarrow>
          (case each_in_turn f xs s1 of None \<Rightarrow> None | Some (rs, s2) \<Rightarrow> Some (r # rs, s2)))"


text \<open>
  The shape of the calls a fail-fast operation adds to the record: the calls made before
  the operation are still there; when the operation returns an error, the last call it
  made failed with that error and every call it made before succeeded; when it returns
  a value, every call it made succeeded.
\<close>

definition fail_fast :: "'w st \<Rightarrow> (error + 'a) \<times> 'w st \<Rightarrow> bool" where
  "fail_fast s out =
     (let old = calls s; new = drop (length old) (calls (snd out))
      in take (length old) (calls (snd out)) = old \<and>
         (case fst out of
            Inl e \<Rightarrow> new \<noteq> [] \<and> snd (last new) = Some e \<and> list_all (\<lambda>c. snd c = None) (butlast new)
          | Inr _ \<Rightarrow> list_all (\<lambda>c. snd c = None) new))"

text \<open>
  What is asked of a result \<open>r\<close> merged from the lists \<open>slices\<close> under the limit
  \<open>K\<close>: no duplicates, ascending, only entries of the lists; with \<open>K = 0\<close> every entry
  of the lists; with \<open>K > 0\<close> as many entries as the limit allows, each smaller than
  every entry left out.
\<close>

definition label_result :: "int \<Rightarrow> string list list \<Rightarrow> string list \<Rightarrow> bool" where
  "label_result K slices r =
     (let S = set (concat slices)
      in distinct r \<and> sorted r \<and> set r \<subseteq> S \<and>
         (K = 0 \<longrightarrow> set r = S) \<and>
         (K > 0 \<longrightarrow> length r = min (nat K) (card S) \<and> (\<forall>x\<in>set r. \<forall>y\<in>S - set r. x < y)))"

text \<open>A list of series is non-decreasing when no series is followed by a smaller one.\<close>

definition non_decreasing :: "ChunkSeries list \<Rightarrow> bool" where
  "non_decreasing xs = sorted_wrt (\<lambda>x y. Compare (Lset x) (Lset y) \<le> 0) xs"

text \<open>
  What \<^verbatim>\<open>sort.Sort\<close> promises for \<^verbatim>\<open>byLabels\<close>: the elements are rearranged, and
  afterwards no element is \<^verbatim>\<open>Less\<close> than one before it. The order of elements that
  \<^verbatim>\<open>Less\<close> does not separate is left open (the sort is not stable).
\<close>

definition sorts :: "('w, 'c, 's, 'g, 'r, 'm, 'f, 't, 'd) extern \<Rightarrow> bool" where
  "sorts cb =
     (\<forall>xs. mset (sort_Sort cb byLabels_Less xs) = mset xs \<and>
           sorted_wrt (\<lambda>x y. \<not> byLabels_Less y x) (sort_Sort cb byLabels_Less xs))"

text \<open>
  One round of the merge: the label set it takes from the sets that still have a
  series, and the front series it hands to the merge function.
\<close>

definition round_labels :: "(ChunkSeries \<times> ChunkSeries list) list \<Rightarrow> Labels" where
  "round_labels live =
     (case live of
        [] \<Rightarrow> []
      | p # ps \<Rightarrow> least_labels Compare (Lset (fst p)) (map (\<lambda>p. Lset (fst p)) ps))"

definition round_series :: "(ChunkSeries \<times> ChunkSeries list) list \<Rightarrow> ChunkSeries list" where
  "round_series live = map fst (filter (\<lambda>p. Lset (fst p) = round_labels live) live)"

text \<open>No label set is in two of the sets.\<close>

definition no_shared_labels :: "ChunkSeries list list \<Rightarrow> bool" where
  "no_shared_labels sets = sorted_wrt (\<lambda>s t. Lset ` set s \<inter> Lset ` set t = {}) sets"

section \<open>An instance of the called code\<close>

text \<open>
  A small instance to run the embedding on. The world is a budget of reads and a disk.
  The disk holds the files: a file is the list of its row groups, a row group the list
  of the series stored in it, and a \<^verbatim>\<open>*parquet.File\<close> is the position of the file on
  the disk. Every filter and materialize call uses up one read and fails once the
  budget is spent; no call writes to the disk. A regular expression matcher with the
  pattern \<open>(\<close> does not translate; a labels file without row groups has no schema; a
  materializer cannot be made for a chunks file without row groups. Materializing
  keeps the chunks that overlap the time window. Sorting is by insertion. A chunk of
  the instance holds two samples, one at each end of its time range.
\<close>

fun insert_by :: "('a \<Rightarrow> 'a \<Rightarrow> bool) \<Rightarrow> 'a \<Rightarrow> 'a list \<Rightarrow> 'a list" where
  "insert_by lt x [] = [x]"
| "insert_by lt x (y # ys) = (if lt x y then x # y # ys else y # insert_by lt x ys)"

definition insertion_sort :: "('a \<Rightarrow> 'a \<Rightarrow> bool) \<Rightarrow> 'a list \<Rightarrow> 'a list" where
  "insertion_sort lt xs = foldr (insert_by lt) xs []"

type_synonym disk = "ChunkSeries list list list"

definition file_at :: "disk \<Rightarrow> nat \<Rightarrow> ChunkSeries list list" where
  "file_at dsk f = (if f < length dsk then dsk ! f else [])"

definition bad_matcher :: "Matcher \<Rightarrow> bool" where
  "bad_matcher x = ((Type x = MatchRegexp \<or> Type x = MatchNotRegexp) \<and> Value x = ''('')"

definition spend :: "error \<Rightarrow> 'a \<Rightarrow> nat \<times> disk \<Rightarrow> (error + 'a) \<times> nat \<times> disk" where
  "spend e v w = (if fst w = 0 then (Inl e, w) else (Inr v, (fst w - 1, snd w)))"

definition clip :: "int \<Rightarrow> int \<Rightarrow> ChunkSeries \<Rightarrow> ChunkSeries" where
  "clip minT maxT x = x\<lparr>Chks := filter (\<lambda>c. minT \<le> MaxTime c \<and> MinTime c \<le> maxT) (Chks x)\<rparr>"

definition example_extern ::
  "(nat \<times> disk, Matcher, unit, ChunkSeries list, ChunkSeries list, nat, nat, nat, unit) extern" where
  "example_extern =
     \<lparr>MatchersToConstraint = (\<lambda>ms w. (if list_ex bad_matcher ms then Inl (Error ''bad pattern'') else Inr ms, w)),
      Initialize = (\<lambda>sch cs w. (Inr cs, w)),
      Filter = (\<lambda>g cs. spend (Error ''filter'') g),
      Materialize = (\<lambda>mat i minT maxT rr. spend (Error ''decode'') (map (clip minT maxT) rr)),
      MaterializeLabelNames = (\<lambda>mat i rr. spend (Error ''decode'') (map fst (concat (map Lset rr)))),
      MaterializeLabelValues =
        (\<lambda>mat name i rr. spend (Error ''decode'') (map snd (filter (\<lambda>l. fst l = name) (concat (map Lset rr))))),
      FromLabelsFile =
        (\<lambda>f w. (if file_at (snd w) f = [] then Inl (Error ''no schema'') else Inr (length (file_at (snd w) f)), w)),
      NewMaterializer = (\<lambda>sch d f g w. (if file_at (snd w) g = [] then Inl (Error ''no chunks'') else Inr f, w)),
      Schema = (\<lambda>f w. ()),
      RowGroups = (\<lambda>f w. file_at (snd w) f),
      sort_Sort = insertion_sort\<rparr>"

definition series :: "Labels \<Rightarrow> (int \<times> int) list \<Rightarrow> ChunkSeries" where
  "series l ts =
     \<lparr>Lset = l, Chks = map (\<lambda>(a, b). \<lparr>MinTime = a, MaxTime = b, Chunk = [(a, 0), (b, 0)]\<rparr>) ts\<rparr>"

text \<open>
  The disk: the labels file of block A with two row groups, the labels file of block B
  with one, a chunks file, an empty file, and the labels files of the blocks C and D,
  which hold the series \<open>job=x\<close> as block B does, C with one chunk before the chunk of
  B and D with one chunk before and one after it, and the labels file of block E, which
  holds the series \<open>job=w\<close>.
\<close>

definition disk_AB :: disk where
  "disk_AB =
     [[[series [(''job'', ''y'')] [(0, 99)]], [series [(''job'', ''x'')] [(0, 99)]]],
      [[series [(''job'', ''x'')] [(100, 199)]]],
      [[]],
      [],
      [[series [(''job'', ''x'')] [(0, 99)]]],
      [[series [(''job'', ''x'')] [(0, 99), (200, 299)]]],
      [[series [(''job'', ''w'')] [(0, 99)]]]]"

definition block_A :: "(nat, nat) ParquetBlock" where
  "block_A = \<lparr>lf = 0, cf = 2, m = 0\<rparr>"

definition block_B :: "(nat, nat) ParquetBlock" where
  "block_B = \<lparr>lf = 1, cf = 2, m = 1\<rparr>"

definition block_C :: "(nat, nat) ParquetBlock" where
  "block_C = \<lparr>lf = 4, cf = 2, m = 4\<rparr>"

definition block_D :: "(nat, nat) ParquetBlock" where
  "block_D = \<lparr>lf = 5, cf = 2, m = 5\<rparr>"

definition block_E :: "(nat, nat) ParquetBlock" where
  "block_E = \<lparr>lf = 6, cf = 2, m = 6\<rparr>"

definition querier_AB :: "(nat, nat) parquetQuerier" where
  "querier_AB = \<lparr>mint = 0, maxt = 199, blocks = [block_A, block_B]\<rparr>"

definition start :: "nat \<Rightarrow> (nat \<times> disk) st" where
  "start budget = \<lparr>world = (budget, disk_AB), calls = []\<rparr>"

section \<open>Errors\<close>

lemma fail_fastI:
  assumes "calls s1 = calls s @ new"
    and "case r of Inl e \<Rightarrow> new \<noteq> [] \<and> snd (last new) = Some e \<and> list_all (\<lambda>c. snd c = None) (butlast new)
                 | Inr _ \<Rightarrow> list_all (\<lambda>c. snd c = None) new"
  shows "fail_fast s (r, s1)"
  using assms by (simp add: fail_fast_def)

lemma fail_fastE:
  assumes "fail_fast s (r, s1)"
  obtains new where "calls s1 = calls s @ new"
    and "case r of Inl e \<Rightarrow> new \<noteq> [] \<and> snd (last new) = Some e \<and> list_all (\<lambda>c. snd c = None) (butlast new)
                 | Inr _ \<Rightarrow> list_all (\<lambda>c. snd c = None) new"
proof -
  let ?new = "drop (length (calls s)) (calls s1)"
  from assms have "take (length (calls s)) (calls s1) = calls s"
    by (simp add: fail_fast_def Let_def)
  then have "calls s1 = calls s @ ?new"
    by (metis append_take_drop_id)
  moreover from assms
  have "case r of Inl e \<Rightarrow> ?new \<noteq> [] \<and> snd (last ?new) = Some e \<and> list_all (\<lambda>c. snd c = None) (butlast ?new)
                 | Inr _ \<Rightarrow> list_all (\<lambda>c. snd c = None) ?new"
    by (simp add: fail_fast_def Let_def)
  ultimately show thesis by (rule that)
qed

lemma fail_fast_return: "fail_fast s (Inr v, s)"
  by (simp add: fail_fast_def)

lemma fail_fast_invoke: "fail_fast s (invoke k f s)"
  by (cases "f (world s)") (auto simp: fail_fast_def invoke_def split: sum.splits)

lemma fail_fast_then:
  assumes "fail_fast s (Inr v, s1)" and "fail_fast s1 out"
  shows "fail_fast s out"
proof -
  obtain r s2 where out: "out = (r, s2)" by (cases out)
  from assms(1) obtain n1 where n1: "calls s1 = calls s @ n1" "list_all (\<lambda>c. snd c = None) n1"
    by (rule fail_fastE) simp
  from assms(2) out obtain n2 where n2: "calls s2 = calls s1 @ n2"
    "case r of Inl e \<Rightarrow> n2 \<noteq> [] \<and> snd (last n2) = Some e \<and> list_all (\<lambda>c. snd c = None) (butlast n2)
             | Inr _ \<Rightarrow> list_all (\<lambda>c. snd c = None) n2"
    by (auto elim: fail_fastE)
  have "fail_fast s (r, s2)"
  proof (rule fail_fastI)
    show "calls s2 = calls s @ (n1 @ n2)" using n1 n2 by simp
    show "case r of Inl e \<Rightarrow> n1 @ n2 \<noteq> [] \<and> snd (last (n1 @ n2)) = Some e \<and>
                      list_all (\<lambda>c. snd c = None) (butlast (n1 @ n2))
                 | Inr _ \<Rightarrow> list_all (\<lambda>c. snd c = None) (n1 @ n2)"
      using n1(2) n2(2) by (cases r) (auto simp: butlast_append)
  qed
  with out show ?thesis by simp
qed

text \<open>The error-propagating sequencing used throughout the file keeps the shape.\<close>

lemma fail_fast_bind:
  assumes "fail_fast s op1"
    and "\<And>v s1. op1 = (Inr v, s1) \<Longrightarrow> fail_fast s1 (k v s1)"
  shows "fail_fast s (case op1 of (Inl err, s1) \<Rightarrow> (Inl err, s1) | (Inr v, s1) \<Rightarrow> k v s1)"
proof (cases op1)
  case (Pair r s1)
  show ?thesis
  proof (cases r)
    case (Inl e)
    with Pair assms(1) show ?thesis by (simp add: fail_fast_def)
  next
    case (Inr v)
    with Pair assms(1) have "fail_fast s (Inr v, s1)" by simp
    from fail_fast_then [OF this assms(2)] Pair Inr show ?thesis by simp
  qed
qed

lemma fail_fast_query_groups: "fail_fast s (query_groups cb mat minT maxT cs i groups results s)"
proof (induction groups arbitrary: i results s)
  case Nil
  show ?case by (simp add: fail_fast_return)
next
  case (Cons grp groups)
  show ?case
    unfolding query_groups.simps
    by (intro fail_fast_bind fail_fast_invoke Cons.IH)
qed

lemma fail_fast_labelNames_groups: "fail_fast s (labelNames_groups cb mat cs i groups results s)"
proof (induction groups arbitrary: i results s)
  case Nil
  show ?case by (simp add: fail_fast_return)
next
  case (Cons grp groups)
  show ?case
    unfolding labelNames_groups.simps
    by (intro fail_fast_bind fail_fast_invoke Cons.IH)
qed

lemma fail_fast_labelValues_groups:
  "fail_fast s (labelValues_groups cb mat name cs i groups results s)"
proof (induction groups arbitrary: i results s)
  case Nil
  show ?case by (simp add: fail_fast_return)
next
  case (Cons grp groups)
  show ?case
    unfolding labelValues_groups.simps
    by (intro fail_fast_bind fail_fast_invoke Cons.IH)
qed

lemma fail_fast_query: "fail_fast s (query cb b sorted' minT maxT matchers s)"
  unfolding query_def
  by (intro fail_fast_bind fail_fast_invoke fail_fast_query_groups fail_fast_return)

lemma fail_fast_labelNames: "fail_fast s (labelNames cb b matchers s)"
  unfolding labelNames_def
  by (intro fail_fast_bind fail_fast_invoke fail_fast_labelNames_groups)

lemma fail_fast_labelValues: "fail_fast s (labelValues cb b name matchers s)"
  unfolding labelValues_def
  by (intro fail_fast_bind fail_fast_invoke fail_fast_labelValues_groups)

lemma fail_fast_Select_blocks:
  "fail_fast s (Select_blocks cb bs sorted' minT maxT matchers seriesSet s)"
proof (induction bs arbitrary: seriesSet s)
  case Nil
  show ?case by (simp add: fail_fast_return)
next
  case (Cons b bs)
  show ?case
    unfolding Select_blocks.simps
    by (intro fail_fast_bind fail_fast_query Cons.IH)
qed

lemma fail_fast_LabelNames_blocks:
  "fail_fast s (LabelNames_blocks cb bs matchers acc s)"
proof (induction bs arbitrary: acc s)
  case Nil
  show ?case by (simp add: fail_fast_return)
next
  case (Cons b bs)
  show ?case
    unfolding LabelNames_blocks.simps
    by (intro fail_fast_bind fail_fast_labelNames Cons.IH)
qed

lemma fail_fast_LabelValues_blocks:
  "fail_fast s (LabelValues_blocks cb bs name matchers acc s)"
proof (induction bs arbitrary: acc s)
  case Nil
  show ?case by (simp add: fail_fast_return)
next
  case (Cons b bs)
  show ?case
    unfolding LabelValues_blocks.simps
    by (intro fail_fast_bind fail_fast_labelValues Cons.IH)
qed

lemma fail_fast_Select: "fail_fast s (Select cb p sorted' sp matchers s)"
proof -
  obtain minT maxT
    where w: "(case sp of None \<Rightarrow> (mint p, maxt p) | Some h \<Rightarrow> (Start h, End h)) = (minT, maxT)"
    by fastforce
  show ?thesis
    unfolding Select_def Let_def w prod.case
    by (intro fail_fast_bind fail_fast_Select_blocks fail_fast_return)
qed

lemma fail_fast_LabelNames: "fail_fast s (LabelNames cb p hints matchers s)"
  unfolding LabelNames_def Let_def
  by (intro fail_fast_bind fail_fast_LabelNames_blocks fail_fast_return)

lemma fail_fast_LabelValues: "fail_fast s (LabelValues cb p name hints matchers s)"
  unfolding LabelValues_def Let_def
  by (intro fail_fast_bind fail_fast_LabelValues_blocks fail_fast_return)

section \<open>Running the instance\<close>

text \<open>The definitions to unfold when the embedding is run on the instance.\<close>

lemmas example_defs =
  example_extern_def bad_matcher_def spend_def clip_def series_def block_A_def block_B_def
  block_C_def block_D_def block_E_def querier_AB_def start_def insertion_sort_def file_at_def disk_AB_def

lemmas run_defs =
  Select_def LabelNames_def LabelValues_def query_def labelNames_def labelValues_def invoke_def
  NewChunksSeriesSet_def NewSeriesSetFromChunkSeriesSet_def NewParquetBlock_def

section \<open>Error handling\<close>

text \<open>
  C5. Select, LabelNames and LabelValues are fail-fast: whatever the called code does,
  an error of any call (constraint building, initialization, filtering or materializing,
  of any block and any row group) is the last call the query makes and is the error the
  query returns; a query returns a value only when every call it made succeeded.
\<close>

theorem queries_fail_fast:
  "fail_fast s (Select cb p sorted' sp matchers s) \<and>
   fail_fast s (LabelNames cb p hints matchers s) \<and>
   fail_fast s (LabelValues cb p name hints matchers s)"
  by (simp add: fail_fast_Select fail_fast_LabelNames fail_fast_LabelValues)

text \<open>
  With a budget of three reads the materialization of the second row group of the first
  block fails: the query stops there and the second block is never touched.
\<close>

theorem queries_fail_fast_witness:
  "fail_fast (start 3) (Select example_extern querier_AB True None [] (start 3)) \<and>
   Select example_extern querier_AB True None [] (start 3) =
     (Inl (Error ''decode''),
      \<lparr>world = (0, disk_AB),
       calls = [(CallMatchersToConstraint, None), (CallInitialize, None),
                (CallFilter 0, None), (CallMaterialize 0, None),
                (CallFilter 1, None), (CallMaterialize 1, Some (Error ''decode''))]\<rparr>)"
  using queries_fail_fast [of "start 3" example_extern querier_AB True None "[]"]
  by (simp add: run_defs example_defs nth_Cons')

text \<open>
  C6. When the matchers do not translate, each per-block operation returns the
  translation error at once: the translation is the only call it makes (no filter and
  no materialize call is recorded), and the world is as the translation left it.
\<close>

theorem translation_error_before_io:
  assumes "MatchersToConstraint cb matchers (world s) = (Inl e, w')"
  shows "query cb b sorted' minT maxT matchers s =
           (Inl e, \<lparr>world = w', calls = calls s @ [(CallMatchersToConstraint, Some e)]\<rparr>) \<and>
         labelNames cb b matchers s =
           (Inl e, \<lparr>world = w', calls = calls s @ [(CallMatchersToConstraint, Some e)]\<rparr>) \<and>
         labelValues cb b name matchers s =
           (Inl e, \<lparr>world = w', calls = calls s @ [(CallMatchersToConstraint, Some e)]\<rparr>)"
  using assms by (simp add: query_def labelNames_def labelValues_def invoke_def)

theorem translation_error_before_io_witness:
  "MatchersToConstraint example_extern [\<lparr>Type = MatchRegexp, Name = ''job'', Value = ''(''\<rparr>]
     (world (start 9)) = (Inl (Error ''bad pattern''), (9, disk_AB)) \<and>
   query example_extern block_A True 0 199 [\<lparr>Type = MatchRegexp, Name = ''job'', Value = ''(''\<rparr>] (start 9) =
     (Inl (Error ''bad pattern''),
      \<lparr>world = (9, disk_AB), calls = [(CallMatchersToConstraint, Some (Error ''bad pattern''))]\<rparr>) \<and>
   labelNames example_extern block_A [\<lparr>Type = MatchRegexp, Name = ''job'', Value = ''(''\<rparr>] (start 9) =
     (Inl (Error ''bad pattern''),
      \<lparr>world = (9, disk_AB), calls = [(CallMatchersToConstraint, Some (Error ''bad pattern''))]\<rparr>) \<and>
   labelValues example_extern block_A ''job'' [\<lparr>Type = MatchRegexp, Name = ''job'', Value = ''(''\<rparr>] (start 9) =
     (Inl (Error ''bad pattern''),
      \<lparr>world = (9, disk_AB), calls = [(CallMatchersToConstraint, Some (Error ''bad pattern''))]\<rparr>)"
proof -
  have h: "MatchersToConstraint example_extern [\<lparr>Type = MatchRegexp, Name = ''job'', Value = ''(''\<rparr>]
             (world (start 9)) = (Inl (Error ''bad pattern''), (9, disk_AB))"
    by (simp add: example_defs)
  from translation_error_before_io [OF h, of block_A True 0 199 "''job''"] h
  show ?thesis by (simp add: start_def)
qed

text \<open>
  C7. \<^verbatim>\<open>NewParquetBlock\<close> returns an error exactly when deriving the schema from the
  labels file fails or, with the schema derived, making the materializer fails, and the
  error is the one of the failing step. When it returns a block, the block holds the
  two files it was given and the materializer made from the derived schema.
\<close>

theorem NewParquetBlock_result:
  "(\<forall>e. fst (NewParquetBlock cb lf0 cf0 d s) = Inl e \<longleftrightarrow>
        (\<exists>w1. FromLabelsFile cb lf0 (world s) = (Inl e, w1)) \<or>
        (\<exists>sch w1 w2. FromLabelsFile cb lf0 (world s) = (Inr sch, w1) \<and>
                      NewMaterializer cb sch d lf0 cf0 w1 = (Inl e, w2))) \<and>
   (\<forall>b. fst (NewParquetBlock cb lf0 cf0 d s) = Inr b \<longleftrightarrow>
        (\<exists>sch w1 w2. FromLabelsFile cb lf0 (world s) = (Inr sch, w1) \<and>
                      NewMaterializer cb sch d lf0 cf0 w1 = (Inr (m b), w2) \<and>
                      lf b = lf0 \<and> cf b = cf0))"
proof -
  obtain r1 w1 where f: "FromLabelsFile cb lf0 (world s) = (r1, w1)"
    by (cases "FromLabelsFile cb lf0 (world s)")
  show ?thesis
  proof (cases r1)
    case (Inl e1)
    with f show ?thesis by (auto simp: NewParquetBlock_def invoke_def)
  next
    case (Inr sch)
    obtain r2 w2 where g: "NewMaterializer cb sch d lf0 cf0 w1 = (r2, w2)"
      by (cases "NewMaterializer cb sch d lf0 cf0 w1")
    show ?thesis
    proof (cases r2)
      case (Inl e2)
      with f Inr g show ?thesis by (auto simp: NewParquetBlock_def invoke_def)
    next
      case mat: (Inr mat)
      have "\<And>b. (\<lparr>lf = lf0, cf = cf0, m = mat\<rparr> = b) = (mat = m b \<and> lf b = lf0 \<and> cf b = cf0)"
        by auto
      with f Inr g mat show ?thesis by (simp add: NewParquetBlock_def invoke_def)
    qed
  qed
qed

text \<open>
  On the example disk file 3 is empty: as a labels file it gives the schema error and no
  block, as a chunks file the materializer's error; files 0 and 2 give the block.
\<close>

theorem NewParquetBlock_result_witness:
  "fst (NewParquetBlock example_extern 3 2 () (start 0)) = Inl (Error ''no schema'') \<and>
   fst (NewParquetBlock example_extern 0 3 () (start 0)) = Inl (Error ''no chunks'') \<and>
   fst (NewParquetBlock example_extern 0 2 () (start 0)) = Inr \<lparr>lf = 0, cf = 2, m = 0\<rparr> \<and>
   (\<exists>sch w1 w2. FromLabelsFile example_extern 0 (world (start 0)) = (Inr sch, w1) \<and>
      NewMaterializer example_extern sch () 0 2 w1 = (Inr 0, w2))"
proof -
  have ok: "fst (NewParquetBlock example_extern 0 2 () (start 0)) = Inr \<lparr>lf = 0, cf = 2, m = 0\<rparr>"
    by (simp add: run_defs example_defs)
  note NewParquetBlock_result [of example_extern 0 2 "()" "start 0",
      THEN conjunct2, THEN spec, of "\<lparr>lf = 0, cf = 2, m = 0\<rparr>"]
  with ok
  have "\<exists>sch w1 w2. FromLabelsFile example_extern 0 (world (start 0)) = (Inr sch, w1) \<and>
      NewMaterializer example_extern sch () 0 2 w1 = (Inr 0, w2)"
    by simp
  with ok show ?thesis by (simp add: run_defs example_defs)
qed

section \<open>Construction\<close>

text \<open>
  C9. \<^verbatim>\<open>NewParquetQueryable\<close> and \<^verbatim>\<open>Querier\<close> always return a value, never an error:
  the queryable holds the blocks it was given, the querier the time range it was given
  and the blocks of the queryable.
\<close>

theorem constructors_never_fail:
  "(\<exists>q. NewParquetQueryable bs = Inr q \<and> parquetQueryable.blocks q = bs) \<and>
   (\<exists>p. Querier q0 minT maxT = Inr p \<and> mint p = minT \<and> maxt p = maxT \<and>
        blocks p = parquetQueryable.blocks q0)"
  by (simp add: NewParquetQueryable_def Querier_def)

section \<open>Label names and values\<close>

lemma take_sorted_distinct_smallest:
  fixes l :: "'a::linorder list"
  assumes "sorted l" and "distinct l" and "x \<in> set (take n l)" and "y \<in> set l - set (take n l)"
  shows "x < y"
proof -
  have l: "l = take n l @ drop n l" by simp
  from assms(4) have y: "y \<in> set (drop n l)"
    by (metis DiffD1 DiffD2 UnE l set_append)
  from assms(1) have "sorted (take n l @ drop n l)" by (simp only: append_take_drop_id)
  then have "\<forall>a\<in>set (take n l). \<forall>b\<in>set (drop n l). a \<le> b"
    unfolding sorted_append by blast
  with assms(3) y have "x \<le> y" by blast
  moreover from assms(3,4) have "x \<noteq> y" by auto
  ultimately show ?thesis by simp
qed

lemma MergeUnsortedSlices_label_result: "label_result K slices (MergeUnsortedSlices K slices)"
proof -
  let ?l = "sort (remdups (concat slices))"
  have d: "distinct ?l" and s: "sorted ?l" and e: "set ?l = set (concat slices)"
    by simp_all
  have len: "length ?l = card (set (concat slices))"
    by (simp add: length_remdups_card_conv)
  show ?thesis
  proof (cases "K > 0")
    case False
    with d s e show ?thesis by (simp add: label_result_def MergeUnsortedSlices_def)
  next
    case True
    have "distinct (take (nat K) ?l)" using d by (rule distinct_take)
    moreover have "sorted (take (nat K) ?l)" using s by (rule sorted_wrt_take)
    moreover have "set (take (nat K) ?l) \<subseteq> set (concat slices)"
      using e set_take_subset [of "nat K" ?l] by simp
    moreover have "length (take (nat K) ?l) = min (nat K) (card (set (concat slices)))"
      using len by simp
    moreover have "\<forall>x\<in>set (take (nat K) ?l). \<forall>y\<in>set (concat slices) - set (take (nat K) ?l). x < y"
      using take_sorted_distinct_smallest [OF s d] e by blast
    ultimately show ?thesis
      using True by (simp add: label_result_def MergeUnsortedSlices_def Let_def)
  qed
qed

lemma LabelNames_blocks_each:
  "LabelNames_blocks cb bs matchers acc s = (Inr slices, s') \<longleftrightarrow>
   (\<exists>rs. each_in_turn (\<lambda>b. labelNames cb b matchers) bs s = Some (rs, s') \<and> slices = acc @ concat rs)"
proof (induction bs arbitrary: acc s)
  case Nil
  show ?case by auto
next
  case (Cons b bs)
  obtain r0 s0 where f: "labelNames cb b matchers s = (r0, s0)" by (cases "labelNames cb b matchers s")
  show ?case
  proof (cases r0)
    case (Inl e)
    with f show ?thesis by simp
  next
    case (Inr r)
    with f Cons.IH [of "acc @ r" s0] show ?thesis
      by (auto split: option.splits)
  qed
qed

lemma LabelValues_blocks_each:
  "LabelValues_blocks cb bs name matchers acc s = (Inr slices, s') \<longleftrightarrow>
   (\<exists>rs. each_in_turn (\<lambda>b. labelValues cb b name matchers) bs s = Some (rs, s') \<and>
         slices = acc @ concat rs)"
proof (induction bs arbitrary: acc s)
  case Nil
  show ?case by auto
next
  case (Cons b bs)
  obtain r0 s0 where f: "labelValues cb b name matchers s = (r0, s0)"
    by (cases "labelValues cb b name matchers s")
  show ?case
  proof (cases r0)
    case (Inl e)
    with f show ?thesis by simp
  next
    case (Inr r)
    with f Cons.IH [of "acc @ r" s0] show ?thesis
      by (auto split: option.splits)
  qed
qed

text \<open>
  C4. \<^verbatim>\<open>LabelNames\<close> returns a list exactly when \<^verbatim>\<open>labelNames\<close>, run on the blocks of
  the querier one after the other, returns lists for every block. The list returned has
  no duplicates and is sorted ascending, and its entries are entries of those lists:
  under the limit 0 (the limit without hints) all of them, under a limit \<open>K > 0\<close> the
  \<open>K\<close> smallest of them, or all of them when there are fewer than \<open>K\<close>. The same holds
  of \<^verbatim>\<open>LabelValues\<close> and \<^verbatim>\<open>labelValues\<close>.
\<close>

theorem label_lists_sorted_distinct_limited:
  "((\<exists>r. LabelNames cb p hints matchers s = (Inr r, s')) \<longleftrightarrow>
      (\<exists>rs. each_in_turn (\<lambda>b. labelNames cb b matchers) (blocks p) s = Some (rs, s'))) \<and>
   (\<forall>r rs. LabelNames cb p hints matchers s = (Inr r, s') \<and>
           each_in_turn (\<lambda>b. labelNames cb b matchers) (blocks p) s = Some (rs, s') \<longrightarrow>
           label_result (case hints of None \<Rightarrow> 0 | Some h \<Rightarrow> Limit h) (concat rs) r) \<and>
   ((\<exists>r. LabelValues cb p name hints matchers s = (Inr r, s')) \<longleftrightarrow>
      (\<exists>rs. each_in_turn (\<lambda>b. labelValues cb b name matchers) (blocks p) s = Some (rs, s'))) \<and>
   (\<forall>r rs. LabelValues cb p name hints matchers s = (Inr r, s') \<and>
           each_in_turn (\<lambda>b. labelValues cb b name matchers) (blocks p) s = Some (rs, s') \<longrightarrow>
           label_result (case hints of None \<Rightarrow> 0 | Some h \<Rightarrow> Limit h) (concat rs) r)"
proof -
  let ?K = "case hints of None \<Rightarrow> 0 | Some h \<Rightarrow> Limit h"
  have names: "LabelNames cb p hints matchers s = (Inr r, s') \<longleftrightarrow>
      (\<exists>rs. each_in_turn (\<lambda>b. labelNames cb b matchers) (blocks p) s = Some (rs, s') \<and>
            r = MergeUnsortedSlices ?K (concat rs))" for r
  proof
    assume "LabelNames cb p hints matchers s = (Inr r, s')"
    then obtain slices
      where "LabelNames_blocks cb (blocks p) matchers [] s = (Inr slices, s')"
        and r: "r = MergeUnsortedSlices ?K slices"
      by (auto simp: LabelNames_def split: prod.splits sum.splits)
    from this(1) [unfolded LabelNames_blocks_each] r
    show "\<exists>rs. each_in_turn (\<lambda>b. labelNames cb b matchers) (blocks p) s = Some (rs, s') \<and>
            r = MergeUnsortedSlices ?K (concat rs)"
      by auto
  next
    assume "\<exists>rs. each_in_turn (\<lambda>b. labelNames cb b matchers) (blocks p) s = Some (rs, s') \<and>
            r = MergeUnsortedSlices ?K (concat rs)"
    then obtain rs
      where e: "each_in_turn (\<lambda>b. labelNames cb b matchers) (blocks p) s = Some (rs, s')"
        and r: "r = MergeUnsortedSlices ?K (concat rs)"
      by auto
    from e have "LabelNames_blocks cb (blocks p) matchers [] s = (Inr (concat rs), s')"
      unfolding LabelNames_blocks_each by simp
    with r show "LabelNames cb p hints matchers s = (Inr r, s')"
      by (simp add: LabelNames_def)
  qed
  have vals: "LabelValues cb p name hints matchers s = (Inr r, s') \<longleftrightarrow>
      (\<exists>rs. each_in_turn (\<lambda>b. labelValues cb b name matchers) (blocks p) s = Some (rs, s') \<and>
            r = MergeUnsortedSlices ?K (concat rs))" for r
  proof
    assume "LabelValues cb p name hints matchers s = (Inr r, s')"
    then obtain slices
      where "LabelValues_blocks cb (blocks p) name matchers [] s = (Inr slices, s')"
        and r: "r = MergeUnsortedSlices ?K slices"
      by (auto simp: LabelValues_def split: prod.splits sum.splits)
    from this(1) [unfolded LabelValues_blocks_each] r
    show "\<exists>rs. each_in_turn (\<lambda>b. labelValues cb b name matchers) (blocks p) s = Some (rs, s') \<and>
            r = MergeUnsortedSlices ?K (concat rs)"
      by auto
  next
    assume "\<exists>rs. each_in_turn (\<lambda>b. labelValues cb b name matchers) (blocks p) s = Some (rs, s') \<and>
            r = MergeUnsortedSlices ?K (concat rs)"
    then obtain rs
      where e: "each_in_turn (\<lambda>b. labelValues cb b name matchers) (blocks p) s = Some (rs, s')"
        and r: "r = MergeUnsortedSlices ?K (concat rs)"
      by auto
    from e have "LabelValues_blocks cb (blocks p) name matchers [] s = (Inr (concat rs), s')"
      unfolding LabelValues_blocks_each by simp
    with r show "LabelValues cb p name hints matchers s = (Inr r, s')"
      by (simp add: LabelValues_def)
  qed
  have 1: "(\<exists>r. LabelNames cb p hints matchers s = (Inr r, s')) \<longleftrightarrow>
      (\<exists>rs. each_in_turn (\<lambda>b. labelNames cb b matchers) (blocks p) s = Some (rs, s'))"
    unfolding names by blast
  have 2: "\<forall>r rs. LabelNames cb p hints matchers s = (Inr r, s') \<and>
           each_in_turn (\<lambda>b. labelNames cb b matchers) (blocks p) s = Some (rs, s') \<longrightarrow>
           label_result ?K (concat rs) r"
    unfolding names using MergeUnsortedSlices_label_result by auto
  have 3: "(\<exists>r. LabelValues cb p name hints matchers s = (Inr r, s')) \<longleftrightarrow>
      (\<exists>rs. each_in_turn (\<lambda>b. labelValues cb b name matchers) (blocks p) s = Some (rs, s'))"
    unfolding vals by blast
  have 4: "\<forall>r rs. LabelValues cb p name hints matchers s = (Inr r, s') \<and>
           each_in_turn (\<lambda>b. labelValues cb b name matchers) (blocks p) s = Some (rs, s') \<longrightarrow>
           label_result ?K (concat rs) r"
    unfolding vals using MergeUnsortedSlices_label_result by auto
  from 1 2 3 4 show ?thesis by (intro conjI)
qed

text \<open>
  In the two example blocks the values of \<open>job\<close> are \<open>y\<close> and \<open>x\<close>, and \<open>x\<close>: under
  the limit 1 the result is \<open>x\<close> alone. The only label name is \<open>job\<close>, found in every
  row group: without hints the result is \<open>job\<close>, once.
\<close>

theorem label_lists_sorted_distinct_limited_witness:
  "each_in_turn (\<lambda>b. labelValues example_extern b ''job'' []) (blocks querier_AB) (start 9) =
     Some ([[[''y''], [''x'']], [[''x'']]],
           \<lparr>world = (3, disk_AB),
            calls = [(CallMatchersToConstraint, None), (CallInitialize, None),
                     (CallFilter 0, None), (CallMaterializeLabelValues 0, None),
                     (CallFilter 1, None), (CallMaterializeLabelValues 1, None),
                     (CallMatchersToConstraint, None), (CallInitialize, None),
                     (CallFilter 0, None), (CallMaterializeLabelValues 0, None)]\<rparr>) \<and>
   fst (LabelValues example_extern querier_AB ''job'' (Some \<lparr>Limit = 1\<rparr>) [] (start 9)) = Inr [''x''] \<and>
   label_result 1 (concat [[[''y''], [''x'']], [[''x'']]]) [''x''] \<and>
   each_in_turn (\<lambda>b. labelNames example_extern b []) (blocks querier_AB) (start 9) =
     Some ([[[''job''], [''job'']], [[''job'']]],
           \<lparr>world = (3, disk_AB),
            calls = [(CallMatchersToConstraint, None), (CallInitialize, None),
                     (CallFilter 0, None), (CallMaterializeLabelNames 0, None),
                     (CallFilter 1, None), (CallMaterializeLabelNames 1, None),
                     (CallMatchersToConstraint, None), (CallInitialize, None),
                     (CallFilter 0, None), (CallMaterializeLabelNames 0, None)]\<rparr>) \<and>
   fst (LabelNames example_extern querier_AB None [] (start 9)) = Inr [''job''] \<and>
   label_result 0 (concat [[[''job''], [''job'']], [[''job'']]]) [''job'']"
proof -
  let ?sv = "\<lparr>world = (3, disk_AB),
            calls = [(CallMatchersToConstraint, None), (CallInitialize, None),
                     (CallFilter 0, None), (CallMaterializeLabelValues 0, None),
                     (CallFilter 1, None), (CallMaterializeLabelValues 1, None),
                     (CallMatchersToConstraint, None), (CallInitialize, None),
                     (CallFilter 0, None), (CallMaterializeLabelValues 0, None)]\<rparr>"
  let ?sn = "\<lparr>world = (3, disk_AB),
            calls = [(CallMatchersToConstraint, None), (CallInitialize, None),
                     (CallFilter 0, None), (CallMaterializeLabelNames 0, None),
                     (CallFilter 1, None), (CallMaterializeLabelNames 1, None),
                     (CallMatchersToConstraint, None), (CallInitialize, None),
                     (CallFilter 0, None), (CallMaterializeLabelNames 0, None)]\<rparr>"
  have ev: "each_in_turn (\<lambda>b. labelValues example_extern b ''job'' []) (blocks querier_AB) (start 9) =
              Some ([[[''y''], [''x'']], [[''x'']]], ?sv)"
    by (simp add: run_defs example_defs nth_Cons')
  have rv: "LabelValues example_extern querier_AB ''job'' (Some \<lparr>Limit = 1\<rparr>) [] (start 9) =
              (Inr [''x''], ?sv)"
    by (simp add: run_defs example_defs nth_Cons' MergeUnsortedSlices_def)
  have en: "each_in_turn (\<lambda>b. labelNames example_extern b []) (blocks querier_AB) (start 9) =
              Some ([[[''job''], [''job'']], [[''job'']]], ?sn)"
    by (simp add: run_defs example_defs nth_Cons')
  have rn: "LabelNames example_extern querier_AB None [] (start 9) = (Inr [''job''], ?sn)"
    by (simp add: run_defs example_defs nth_Cons' MergeUnsortedSlices_def)
  note t = label_lists_sorted_distinct_limited
  from t [of example_extern querier_AB "Some \<lparr>Limit = 1\<rparr>" "[]" "start 9" ?sv "''job''"] rv ev
  have lv: "label_result 1 (concat [[[''y''], [''x'']], [[''x'']]]) [''x'']"
    by simp
  from t [of example_extern querier_AB None "[]" "start 9" ?sn "''job''"] rn en
  have ln: "label_result 0 (concat [[[''job''], [''job'']], [[''job'']]]) [''job'']"
    by simp
  from rv have rv': "fst (LabelValues example_extern querier_AB ''job'' (Some \<lparr>Limit = 1\<rparr>) [] (start 9)) = Inr [''x'']"
    by simp
  from rn have rn': "fst (LabelNames example_extern querier_AB None [] (start 9)) = Inr [''job'']"
    by simp
  from ev rv' lv en rn' ln show ?thesis by (intro conjI)
qed

section \<open>Order of the label sets\<close>

lemma Compare_Nil2 [simp]: "Compare a [] = int (length a)"
  by (cases a) auto

lemma Compare_same: "Compare a a = 0"
  by (induction a) auto

lemma Compare_eq_0: "Compare a b = 0 \<longleftrightarrow> a = b"
  by (induction a b rule: Compare.induct) auto

lemma Compare_flip: "Compare a b < 0 \<longleftrightarrow> 0 < Compare b a"
  by (induction a b rule: Compare.induct) auto

lemma Compare_trans: "Compare a b \<le> 0 \<Longrightarrow> Compare b c \<le> 0 \<Longrightarrow> Compare a c \<le> 0"
proof (induction a b arbitrary: c rule: Compare.induct)
  case (1 b)
  then show ?case by (cases c) auto
next
  case (2 x a)
  then show ?case by simp
next
  case (3 an av a bn bv b)
  show ?case
  proof (cases c)
    case Nil
    with 3 show ?thesis by simp
  next
    case (Cons l c')
    obtain cn cv where l: "l = (cn, cv)" by (cases l)
    from 3 Cons l show ?thesis
      by (auto split: if_splits)
  qed
qed

lemma not_byLabels_Less: "\<not> byLabels_Less y x \<longleftrightarrow> Compare (Lset x) (Lset y) \<le> 0"
  using Compare_flip [of "Lset y" "Lset x"] Compare_flip [of "Lset x" "Lset y"]
  by (auto simp: byLabels_Less_def)

lemma sorts_non_decreasing: "sorts cb \<Longrightarrow> non_decreasing (sort_Sort cb byLabels_Less xs)"
  by (simp add: sorts_def non_decreasing_def not_byLabels_Less)

lemma set_insert_by: "set (insert_by lt x xs) = insert x (set xs)"
  by (induction xs) auto

lemma mset_insert_by: "mset (insert_by lt x xs) = add_mset x (mset xs)"
  by (induction xs) auto

lemma non_decreasing_insert_by:
  "non_decreasing xs \<Longrightarrow> non_decreasing (insert_by byLabels_Less x xs)"
proof (induction xs)
  case Nil
  show ?case by (simp add: non_decreasing_def)
next
  case (Cons y ys)
  show ?case
  proof (cases "byLabels_Less x y")
    case True
    then have xy: "Compare (Lset x) (Lset y) \<le> 0" by (simp add: byLabels_Less_def)
    have "\<forall>z\<in>set ys. Compare (Lset x) (Lset z) \<le> 0"
      using Cons.prems xy by (auto simp: non_decreasing_def intro: Compare_trans)
    with True xy Cons.prems show ?thesis by (simp add: non_decreasing_def)
  next
    case False
    then have "Compare (Lset y) (Lset x) \<le> 0" by (simp add: not_byLabels_Less)
    with False Cons show ?thesis by (auto simp: non_decreasing_def set_insert_by)
  qed
qed

lemma insertion_sort_sorts: "sort_Sort cb = insertion_sort \<Longrightarrow> sorts cb"
proof -
  have m: "mset (insertion_sort lt xs) = mset xs" for lt :: "ChunkSeries \<Rightarrow> ChunkSeries \<Rightarrow> bool" and xs
    by (induction xs) (simp_all add: insertion_sort_def mset_insert_by)
  have s: "non_decreasing (insertion_sort byLabels_Less xs)" for xs
    by (induction xs) (simp_all add: insertion_sort_def non_decreasing_insert_by, simp add: non_decreasing_def)
  assume "sort_Sort cb = insertion_sort"
  with m s show ?thesis by (simp add: sorts_def non_decreasing_def not_byLabels_Less)
qed

section \<open>The merge\<close>

declare NewMergeChunkSeriesSet.simps [simp del]

lemma fronts_iff: "(x, xs) \<in> set (fronts sets) \<longleftrightarrow> x # xs \<in> set sets"
  by (induction sets rule: fronts.induct) auto

lemma least_labels_le_start: "Compare (least_labels Compare c ls) c \<le> 0"
proof (induction ls arbitrary: c)
  case Nil
  show ?case by (simp add: Compare_same)
next
  case (Cons l ls)
  show ?case
  proof (cases "Compare l c < 0")
    case True
    with Cons [of l] show ?thesis by (auto intro: Compare_trans)
  next
    case False
    with Cons [of c] show ?thesis by simp
  qed
qed

lemma least_labels_le: "y \<in> set (c # ls) \<Longrightarrow> Compare (least_labels Compare c ls) y \<le> 0"
proof (induction ls arbitrary: c)
  case Nil
  then show ?case by (simp add: Compare_same)
next
  case (Cons l ls)
  let ?c = "if Compare l c < 0 then l else c"
  have step: "least_labels Compare c (l # ls) = least_labels Compare ?c ls" by simp
  have c: "Compare ?c c \<le> 0" by (simp add: Compare_same)
  have l: "Compare ?c l \<le> 0"
    using Compare_flip [of c l] Compare_eq_0 [of l c] by (auto simp: Compare_same)
  from Cons.prems consider "y = c" | "y = l" | "y \<in> set ls" by auto
  then show ?case
  proof cases
    case 1
    with c least_labels_le_start [of ?c ls] step show ?thesis
      by (metis Compare_trans)
  next
    case 2
    with l least_labels_le_start [of ?c ls] step show ?thesis
      by (metis Compare_trans)
  next
    case 3
    with Cons.IH [of ?c] step show ?thesis by simp
  qed
qed

lemma merger_same_labels:
  assumes "xs \<noteq> []" and "\<forall>x\<in>set xs. Lset x = l"
  shows "NewConcatenatingChunkSeriesMerger xs = Some \<lparr>Lset = l, Chks = concat (map Chks xs)\<rparr>"
  using assms by (cases xs) (auto simp: NewConcatenatingChunkSeriesMerger_def)

lemma round_labels_in: "live \<noteq> [] \<Longrightarrow> round_labels live \<in> set (map (\<lambda>p. Lset (fst p)) live)"
  using least_labels_in [of Compare "Lset (fst (hd live))" "map (\<lambda>p. Lset (fst p)) (tl live)"]
  by (cases live) (auto simp: round_labels_def)

lemma round_labels_le:
  "p \<in> set live \<Longrightarrow> Compare (round_labels live) (Lset (fst p)) \<le> 0"
  using least_labels_le [of "Lset (fst p)" "Lset (fst (hd live))" "map (\<lambda>p. Lset (fst p)) (tl live)" ]
  by (cases live) (auto simp: round_labels_def)

lemma round_series_not_Nil:
  assumes "live \<noteq> []"
  shows "round_series live \<noteq> []"
proof -
  from round_labels_in [OF assms] obtain p
    where "p \<in> set live" and "Lset (fst p) = round_labels live"
    by auto
  then have "p \<in> set (filter (\<lambda>p. Lset (fst p) = round_labels live) live)" by simp
  then show ?thesis unfolding round_series_def by (metis empty_iff list.map_disc_iff set_empty)
qed

lemma round_series_labels: "x \<in> set (round_series live) \<Longrightarrow> Lset x = round_labels live"
  by (auto simp: round_series_def)

lemma merge_done: "fronts sets = [] \<Longrightarrow> NewMergeChunkSeriesSet sets cmp mf = []"
  by (simp add: NewMergeChunkSeriesSet.simps)

lemma merge_round:
  assumes "fronts sets \<noteq> []"
  shows "NewMergeChunkSeriesSet sets Compare NewConcatenatingChunkSeriesMerger =
           \<lparr>Lset = round_labels (fronts sets), Chks = concat (map Chks (round_series (fronts sets)))\<rparr> #
           NewMergeChunkSeriesSet (advance (round_labels (fronts sets)) (fronts sets))
             Compare NewConcatenatingChunkSeriesMerger"
proof -
  from assms obtain x xs rest where fr: "fronts sets = (x, xs) # rest"
    by (cases "fronts sets") auto
  have "NewConcatenatingChunkSeriesMerger (round_series (fronts sets)) =
          Some \<lparr>Lset = round_labels (fronts sets), Chks = concat (map Chks (round_series (fronts sets)))\<rparr>"
    using assms by (intro merger_same_labels round_series_not_Nil ballI round_series_labels)
  with fr show ?thesis
    by (subst NewMergeChunkSeriesSet.simps) (simp add: round_labels_def round_series_def Let_def)
qed

lemma merge_measure:
  assumes "fronts sets \<noteq> []"
  shows "(\<Sum>s\<leftarrow>advance (round_labels (fronts sets)) (fronts sets). length s) < (\<Sum>s\<leftarrow>sets. length s)"
  using sum_length_advance_less [OF round_labels_in [OF assms]] sum_length_fronts [of sets]
  by simp

lemma advance_elem:
  "ys \<in> set (advance cur live) \<Longrightarrow> \<exists>p\<in>set live. ys = snd p \<or> ys = fst p # snd p"
  by (auto simp: advance_def split: if_splits)

lemma advance_from_sets:
  assumes "ys \<in> set (advance cur (fronts sets))"
  shows "\<exists>x xs. x # xs \<in> set sets \<and> (ys = xs \<or> ys = x # xs)"
proof -
  from advance_elem [OF assms] obtain p
    where p: "p \<in> set (fronts sets)" "ys = snd p \<or> ys = fst p # snd p"
    by auto
  obtain x xs where "p = (x, xs)" by (cases p)
  with p fronts_iff [of x xs sets] show ?thesis by auto
qed

lemma non_decreasing_Cons:
  "non_decreasing (x # xs) \<longleftrightarrow> (\<forall>y\<in>set xs. Compare (Lset x) (Lset y) \<le> 0) \<and> non_decreasing xs"
  by (simp add: non_decreasing_def)

lemma non_decreasing_advance:
  assumes "\<forall>ss\<in>set sets. non_decreasing ss"
  shows "\<forall>ss\<in>set (advance cur (fronts sets)). non_decreasing ss"
proof
  fix ss assume "ss \<in> set (advance cur (fronts sets))"
  from advance_from_sets [OF this] obtain x xs
    where "x # xs \<in> set sets" and "ss = xs \<or> ss = x # xs" by auto
  with assms show "non_decreasing ss" by (auto simp: non_decreasing_Cons)
qed

text \<open>Every series of the merged set has the label set of a series of one of the sets.\<close>

lemma merge_labels_from:
  "z \<in> set (NewMergeChunkSeriesSet sets Compare NewConcatenatingChunkSeriesMerger) \<Longrightarrow>
   \<exists>ss\<in>set sets. \<exists>e\<in>set ss. Lset e = Lset z"
proof (induction "\<Sum>s\<leftarrow>sets. length s" arbitrary: sets rule: less_induct)
  case less
  show ?case
  proof (cases "fronts sets = []")
    case True
    with less.prems show ?thesis by (simp add: merge_done)
  next
    case False
    let ?cur = "round_labels (fronts sets)"
    from less.prems merge_round [OF False]
    consider "Lset z = ?cur"
      | "z \<in> set (NewMergeChunkSeriesSet (advance ?cur (fronts sets)) Compare NewConcatenatingChunkSeriesMerger)"
      by auto
    then show ?thesis
    proof cases
      case 1
      from round_labels_in [OF False] obtain p
        where "p \<in> set (fronts sets)" and "Lset (fst p) = ?cur" by auto
      with 1 fronts_iff [of "fst p" "snd p" sets] show ?thesis
        by (metis list.set_intros(1) prod.collapse)
    next
      case 2
      from less.hyps [OF merge_measure [OF False] 2] obtain ys e
        where ys: "ys \<in> set (advance ?cur (fronts sets))" and e: "e \<in> set ys" "Lset e = Lset z"
        by auto
      from advance_from_sets [OF ys] obtain x xs
        where "x # xs \<in> set sets" and "ys = xs \<or> ys = x # xs" by auto
      with e show ?thesis by (metis list.set_intros(2))
    qed
  qed
qed

text \<open>In a round, the label set taken is no larger than any label set still in a set.\<close>

lemma round_labels_least:
  assumes "\<forall>ss\<in>set sets. non_decreasing ss" and "ss \<in> set sets" and "e \<in> set ss"
  shows "Compare (round_labels (fronts sets)) (Lset e) \<le> 0"
proof -
  from assms(3) obtain x xs where ss: "ss = x # xs" by (cases ss) auto
  with assms(2) have "(x, xs) \<in> set (fronts sets)" by (simp add: fronts_iff)
  from round_labels_le [OF this] have 1: "Compare (round_labels (fronts sets)) (Lset x) \<le> 0" by simp
  from assms ss have "Compare (Lset x) (Lset e) \<le> 0"
    by (auto simp: non_decreasing_Cons Compare_same)
  with 1 show ?thesis by (rule Compare_trans)
qed

lemma merge_non_decreasing:
  "\<forall>ss\<in>set sets. non_decreasing ss \<Longrightarrow>
   non_decreasing (NewMergeChunkSeriesSet sets Compare NewConcatenatingChunkSeriesMerger)"
proof (induction "\<Sum>s\<leftarrow>sets. length s" arbitrary: sets rule: less_induct)
  case less
  show ?case
  proof (cases "fronts sets = []")
    case True
    then show ?thesis by (simp add: merge_done non_decreasing_def)
  next
    case False
    let ?cur = "round_labels (fronts sets)"
    let ?next = "advance ?cur (fronts sets)"
    let ?rest = "NewMergeChunkSeriesSet ?next Compare NewConcatenatingChunkSeriesMerger"
    have nd: "\<forall>ss\<in>set ?next. non_decreasing ss"
      using less.prems by (rule non_decreasing_advance)
    from less.hyps [OF merge_measure [OF False] nd] have rest: "non_decreasing ?rest" .
    have "Compare ?cur (Lset z) \<le> 0" if "z \<in> set ?rest" for z
    proof -
      from merge_labels_from [OF that] obtain ys e
        where ys: "ys \<in> set ?next" and e: "e \<in> set ys" "Lset e = Lset z" by auto
      from advance_from_sets [OF ys] obtain x xs
        where x: "x # xs \<in> set sets" and "ys = xs \<or> ys = x # xs" by auto
      with e have "e \<in> set (x # xs)" by auto
      from round_labels_least [OF less.prems x this] e show ?thesis by simp
    qed
    with rest merge_round [OF False] show ?thesis
      by (simp add: non_decreasing_Cons)
  qed
qed

section \<open>Select with sorting\<close>

lemma query_sorted:
  assumes "sorts cb" and "query cb b True minT maxT matchers s = (Inr ss, s1)"
  shows "non_decreasing ss"
  using assms
  by (auto simp: query_def NewChunksSeriesSet_def sorts_non_decreasing split: prod.splits sum.splits)

lemma Select_blocks_sorted:
  assumes "sorts cb"
  shows "\<forall>ss\<in>set seriesSet. non_decreasing ss \<Longrightarrow>
         Select_blocks cb bs True minT maxT matchers seriesSet s = (Inr sets, s1) \<Longrightarrow>
         \<forall>ss\<in>set sets. non_decreasing ss"
proof (induction bs arbitrary: seriesSet s)
  case Nil
  then show ?case by simp
next
  case (Cons b bs)
  from Cons.prems(2) obtain ss s0
    where q: "query cb b True minT maxT matchers s = (Inr ss, s0)"
      and r: "Select_blocks cb bs True minT maxT matchers (seriesSet @ [ss]) s0 = (Inr sets, s1)"
    by (auto split: prod.splits sum.splits)
  from query_sorted [OF assms q] Cons.prems(1)
  have "\<forall>ss\<in>set (seriesSet @ [ss]). non_decreasing ss" by simp
  from Cons.IH [OF this r] show ?case .
qed

text \<open>
  C1. With \<open>sorted = true\<close>, and \<^verbatim>\<open>sort.Sort\<close> sorting as it promises, the series that
  \<^verbatim>\<open>Select\<close> returns are non-decreasing under \<^verbatim>\<open>labels.Compare\<close> from the first to the
  last, whatever the blocks, the time range, the hints and the matchers are.
\<close>

theorem Select_sorted_non_decreasing:
  assumes "sorts cb" and "Select cb p True sp matchers s = (Inr res, s')"
  shows "non_decreasing res"
proof -
  obtain minT maxT
    where w: "(case sp of None \<Rightarrow> (mint p, maxt p) | Some h \<Rightarrow> (Start h, End h)) = (minT, maxT)"
    by fastforce
  from assms(2) obtain sets
    where loop: "Select_blocks cb (blocks p) True minT maxT matchers [] s = (Inr sets, s')"
      and res: "res = NewMergeChunkSeriesSet sets Compare NewConcatenatingChunkSeriesMerger"
    by (auto simp: Select_def w NewSeriesSetFromChunkSeriesSet_def split: prod.splits sum.splits)
  from Select_blocks_sorted [OF assms(1) _ loop] have "\<forall>ss\<in>set sets. non_decreasing ss" by simp
  with res show ?thesis by (simp add: merge_non_decreasing)
qed

lemmas merge_run = merge_round merge_done round_labels_def round_series_def advance_def

text \<open>
  The two example blocks hold \<open>job=y\<close> and \<open>job=x\<close>, and \<open>job=x\<close>: the sorted query
  returns \<open>job=x\<close> before \<open>job=y\<close>.
\<close>

theorem Select_sorted_non_decreasing_witness:
  "sorts example_extern \<and>
   fst (Select example_extern querier_AB True None [] (start 9)) =
     Inr [series [(''job'', ''x'')] [(0, 99), (100, 199)], series [(''job'', ''y'')] [(0, 99)]] \<and>
   non_decreasing [series [(''job'', ''x'')] [(0, 99), (100, 199)], series [(''job'', ''y'')] [(0, 99)]]"
proof -
  have h: "sorts example_extern"
    by (rule insertion_sort_sorts) (simp add: example_extern_def)
  have run: "fst (Select example_extern querier_AB True None [] (start 9)) =
     Inr [series [(''job'', ''x'')] [(0, 99), (100, 199)], series [(''job'', ''y'')] [(0, 99)]]"
    by (simp add: run_defs example_defs nth_Cons' byLabels_Less_def merge_run)
  then have "Select example_extern querier_AB True None [] (start 9) =
     (Inr [series [(''job'', ''x'')] [(0, 99), (100, 199)], series [(''job'', ''y'')] [(0, 99)]],
      snd (Select example_extern querier_AB True None [] (start 9)))"
    by (simp add: prod_eq_iff)
  from Select_sorted_non_decreasing [OF h this] h run show ?thesis by simp
qed

section \<open>Series with the same label set in different blocks\<close>






section \<open>Reading a merged series\<close>







text \<open>
  The blocks A and C both hold \<open>job=x\<close> with the chunk \<open>[0, 99]\<close>: the series returned
  has the chunk of each block, and read it yields each sample once.
\<close>

lemma chunk_of_both_blocks_read_once:
  "fst (Select example_extern \<lparr>mint = 0, maxt = 199, blocks = [block_A, block_C]\<rparr> True None [] (start 9)) =
     Inr [series [(''job'', ''x'')] [(0, 99), (0, 99)], series [(''job'', ''y'')] [(0, 99)]] \<and>
   Samples (series [(''job'', ''x'')] [(0, 99), (0, 99)]) = [(0, 0), (99, 0)]"
  by (simp add: run_defs example_defs nth_Cons' byLabels_Less_def merge_run Samples_def)

section \<open>Select without sorting\<close>

lemma round_split:
  "mset (concat sets) =
     mset (map fst (filter (\<lambda>p. Lset (fst p) = cur) (fronts sets))) +
     mset (concat (advance cur (fronts sets)))"
  by (induction sets rule: fronts.induct) (auto simp: advance_def)

lemma mset_chunks: "mset (concat (map Chks xs)) = (\<Sum>x\<in>#mset xs. mset (Chks x))"
  by (induction xs) auto

text \<open>The merge loses no chunk and repeats none, whatever the order of the sets is.\<close>

lemma merge_chunks:
  "mset (concat (map Chks (NewMergeChunkSeriesSet sets Compare NewConcatenatingChunkSeriesMerger))) =
   mset (concat (map Chks (concat sets)))"
proof (induction "\<Sum>s\<leftarrow>sets. length s" arbitrary: sets rule: less_induct)
  case less
  show ?case
  proof (cases "fronts sets = []")
    case True
    then have c: "concat sets = []" by (induction sets rule: fronts.induct) auto
    show ?thesis unfolding c by (simp add: merge_done [OF True])
  next
    case False
    let ?cur = "round_labels (fronts sets)"
    let ?next = "advance ?cur (fronts sets)"
    have "mset (concat sets) = mset (round_series (fronts sets)) + mset (concat ?next)"
      using round_split [of sets ?cur] by (simp add: round_series_def)
    then have "(\<Sum>x\<in>#mset (concat sets). mset (Chks x)) =
               (\<Sum>x\<in>#mset (round_series (fronts sets)). mset (Chks x)) +
               (\<Sum>x\<in>#mset (concat ?next). mset (Chks x))"
      by simp
    with less.hyps [OF merge_measure [OF False]] merge_round [OF False]
    show ?thesis by (simp add: mset_chunks)
  qed
qed

lemma no_shared_advance:
  "no_shared_labels sets \<Longrightarrow> no_shared_labels (advance cur (fronts sets))"
proof (induction sets rule: fronts.induct)
  case 1
  show ?case by (simp add: no_shared_labels_def advance_def)
next
  case (2 ss)
  then show ?case by (simp add: no_shared_labels_def)
next
  case (3 x xs ss)
  let ?h = "if Lset x = cur then xs else x # xs"
  from 3 have rest: "no_shared_labels (advance cur (fronts ss))"
    by (simp add: no_shared_labels_def)
  have adv: "advance cur (fronts ((x # xs) # ss)) = ?h # advance cur (fronts ss)"
    by (simp add: advance_def)
  have "Lset ` set ?h \<inter> Lset ` set t = {}" if t: "t \<in> set (advance cur (fronts ss))" for t
  proof -
    from advance_from_sets [OF t] obtain y ys
      where y: "y # ys \<in> set ss" and "t = ys \<or> t = y # ys" by auto
    then have "set t \<subseteq> set (y # ys)" by auto
    moreover have "set ?h \<subseteq> set (x # xs)" by auto
    moreover from 3(2) y have "Lset ` set (x # xs) \<inter> Lset ` set (y # ys) = {}"
      unfolding no_shared_labels_def sorted_wrt.simps by blast
    ultimately show ?thesis by blast
  qed
  then have "\<forall>t\<in>set (advance cur (fronts ss)). Lset ` set ?h \<inter> Lset ` set t = {}"
    by blast
  with rest show ?case
    unfolding adv no_shared_labels_def sorted_wrt.simps by (rule conjI [rotated])
qed

lemma no_shared_one_front:
  "no_shared_labels sets \<Longrightarrow> length (filter (\<lambda>p. Lset (fst p) = cur) (fronts sets)) \<le> 1"
proof (induction sets rule: fronts.induct)
  case 1
  show ?case by simp
next
  case (2 ss)
  then show ?case by (simp add: no_shared_labels_def)
next
  case (3 x xs ss)
  from 3 have IH: "length (filter (\<lambda>p. Lset (fst p) = cur) (fronts ss)) \<le> 1"
    by (simp add: no_shared_labels_def)
  show ?case
  proof (cases "Lset x = cur")
    case False
    with IH show ?thesis by simp
  next
    case True
    have "filter (\<lambda>p. Lset (fst p) = cur) (fronts ss) = []"
    proof (rule ccontr)
      assume "filter (\<lambda>p. Lset (fst p) = cur) (fronts ss) \<noteq> []"
      then obtain p where p: "p \<in> set (fronts ss)" "Lset (fst p) = cur"
        by (auto simp: filter_empty_conv)
      then have "fst p # snd p \<in> set ss" using fronts_iff [of "fst p" "snd p" ss] by simp
      with 3(2) have "Lset ` set (x # xs) \<inter> Lset ` set (fst p # snd p) = {}"
        unfolding no_shared_labels_def sorted_wrt.simps by blast
      with True p(2) show False by auto
    qed
    with True show ?thesis by simp
  qed
qed

text \<open>Without a label set in two sets, the merge only rearranges the series.\<close>

lemma merge_rearranges:
  "no_shared_labels sets \<Longrightarrow>
   mset (NewMergeChunkSeriesSet sets Compare NewConcatenatingChunkSeriesMerger) = mset (concat sets)"
proof (induction "\<Sum>s\<leftarrow>sets. length s" arbitrary: sets rule: less_induct)
  case less
  show ?case
  proof (cases "fronts sets = []")
    case True
    then have c: "concat sets = []" by (induction sets rule: fronts.induct) auto
    show ?thesis unfolding c by (simp add: merge_done [OF True])
  next
    case False
    let ?cur = "round_labels (fronts sets)"
    let ?next = "advance ?cur (fronts sets)"
    have "length (round_series (fronts sets)) \<le> 1"
      using no_shared_one_front [OF less.prems, of ?cur] by (simp add: round_series_def)
    with round_series_not_Nil [OF False] obtain x where x: "round_series (fronts sets) = [x]"
      by (cases "round_series (fronts sets)") auto
    then have "Lset x = ?cur" using round_series_labels [of x "fronts sets"] by simp
    then have same: "\<lparr>Lset = ?cur, Chks = concat (map Chks (round_series (fronts sets)))\<rparr> = x"
      using x by (cases x) simp
    have "mset (concat sets) = mset (round_series (fronts sets)) + mset (concat ?next)"
      using round_split [of sets ?cur] by (simp add: round_series_def)
    with less.hyps [OF merge_measure [OF False] no_shared_advance [OF less.prems]]
      merge_round [OF False] same x
    show ?thesis by simp
  qed
qed

text \<open>Without sorting, \<^verbatim>\<open>sort.Sort\<close> is not called: any other sort gives the same.\<close>

lemma query_groups_sort_Sort [simp]:
  "query_groups (cb\<lparr>sort_Sort := f\<rparr>) mat minT maxT cs i groups results s =
   query_groups cb mat minT maxT cs i groups results s"
  by (induction groups arbitrary: i results s) (simp_all cong: prod.case_cong sum.case_cong)

lemma query_unsorted_sort_Sort [simp]:
  "query (cb\<lparr>sort_Sort := f\<rparr>) b False minT maxT matchers s = query cb b False minT maxT matchers s"
  by (simp add: query_def cong: prod.case_cong sum.case_cong)

lemma Select_blocks_unsorted_sort_Sort [simp]:
  "Select_blocks (cb\<lparr>sort_Sort := f\<rparr>) bs False minT maxT matchers seriesSet s =
   Select_blocks cb bs False minT maxT matchers seriesSet s"
  by (induction bs arbitrary: seriesSet s) (simp_all cong: prod.case_cong sum.case_cong)

text \<open>
  C2, as the code has it. With \<open>sorted = false\<close> the series of a block are not sorted
  (\<^verbatim>\<open>sort.Sort\<close> plays no part), but \<^verbatim>\<open>Select\<close> still merges the sets of the blocks as
  it does with sorting. The result holds every chunk of every series of the blocks
  once. When no label set is in two blocks, the result is a rearrangement of the
  series of the blocks. Series of different blocks with the same label set can be
  merged into one, as the counterexample below shows.
\<close>

theorem Select_unsorted_still_merges:
  assumes "Select cb p False sp matchers s = (Inr res, s')"
  shows "Select (cb\<lparr>sort_Sort := f\<rparr>) p False sp matchers s = (Inr res, s') \<and>
         (\<exists>sets. Select_blocks cb (blocks p) False
                    (fst (case sp of None \<Rightarrow> (mint p, maxt p) | Some h \<Rightarrow> (Start h, End h)))
                    (snd (case sp of None \<Rightarrow> (mint p, maxt p) | Some h \<Rightarrow> (Start h, End h)))
                    matchers [] s = (Inr sets, s') \<and>
            res = NewMergeChunkSeriesSet sets Compare NewConcatenatingChunkSeriesMerger \<and>
            mset (concat (map Chks res)) = mset (concat (map Chks (concat sets))) \<and>
            (no_shared_labels sets \<longrightarrow> mset res = mset (concat sets)))"
proof -
  have 1: "Select (cb\<lparr>sort_Sort := f\<rparr>) p False sp matchers s = Select cb p False sp matchers s"
    by (simp add: Select_def)
  obtain minT maxT
    where w: "(case sp of None \<Rightarrow> (mint p, maxt p) | Some h \<Rightarrow> (Start h, End h)) = (minT, maxT)"
    by fastforce
  from assms obtain sets
    where loop: "Select_blocks cb (blocks p) False minT maxT matchers [] s = (Inr sets, s')"
      and res: "res = NewMergeChunkSeriesSet sets Compare NewConcatenatingChunkSeriesMerger"
    by (auto simp: Select_def w NewSeriesSetFromChunkSeriesSet_def split: prod.splits sum.splits)
  from res have "mset (concat (map Chks res)) = mset (concat (map Chks (concat sets)))"
    by (simp add: merge_chunks)
  moreover from res have "no_shared_labels sets \<longrightarrow> mset res = mset (concat sets)"
    by (simp add: merge_rearranges)
  ultimately show ?thesis using 1 assms loop res w by auto
qed

text \<open>
  The blocks A and E share no label set. Block A holds \<open>job=y\<close> before \<open>job=x\<close>, as
  its row groups give them, and block E holds \<open>job=w\<close>: the result has the three
  series, in the order the merge takes them.
\<close>

theorem Select_unsorted_still_merges_witness:
  "Select example_extern \<lparr>mint = 0, maxt = 199, blocks = [block_A, block_E]\<rparr> False None [] (start 9) =
     (Inr [series [(''job'', ''w'')] [(0, 99)], series [(''job'', ''y'')] [(0, 99)],
           series [(''job'', ''x'')] [(0, 99)]],
      snd (Select example_extern \<lparr>mint = 0, maxt = 199, blocks = [block_A, block_E]\<rparr> False None [] (start 9))) \<and>
   fst (Select_blocks example_extern [block_A, block_E] False 0 199 [] [] (start 9)) =
     Inr [[series [(''job'', ''y'')] [(0, 99)], series [(''job'', ''x'')] [(0, 99)]],
          [series [(''job'', ''w'')] [(0, 99)]]] \<and>
   no_shared_labels [[series [(''job'', ''y'')] [(0, 99)], series [(''job'', ''x'')] [(0, 99)]],
                     [series [(''job'', ''w'')] [(0, 99)]]] \<and>
   mset [series [(''job'', ''w'')] [(0, 99)], series [(''job'', ''y'')] [(0, 99)],
         series [(''job'', ''x'')] [(0, 99)]] =
   mset (concat [[series [(''job'', ''y'')] [(0, 99)], series [(''job'', ''x'')] [(0, 99)]],
                 [series [(''job'', ''w'')] [(0, 99)]]])"
proof -
  let ?p = "\<lparr>mint = 0, maxt = 199, blocks = [block_A, block_E]\<rparr>"
  let ?res = "[series [(''job'', ''w'')] [(0, 99)], series [(''job'', ''y'')] [(0, 99)],
               series [(''job'', ''x'')] [(0, 99)]]"
  let ?sets = "[[series [(''job'', ''y'')] [(0, 99)], series [(''job'', ''x'')] [(0, 99)]],
                [series [(''job'', ''w'')] [(0, 99)]]]"
  have "fst (Select example_extern ?p False None [] (start 9)) = Inr ?res"
    by (simp add: run_defs example_defs nth_Cons' merge_run)
  then have run: "Select example_extern ?p False None [] (start 9) =
                    (Inr ?res, snd (Select example_extern ?p False None [] (start 9)))"
    by (simp add: prod_eq_iff)
  have loop: "fst (Select_blocks example_extern [block_A, block_E] False 0 199 [] [] (start 9)) = Inr ?sets"
    by (simp add: run_defs example_defs nth_Cons')
  have ns: "no_shared_labels ?sets"
    by (simp add: no_shared_labels_def series_def)
  from Select_unsorted_still_merges [OF run, of insertion_sort] obtain sets
    where s: "Select_blocks example_extern (blocks ?p) False
                (fst (case None :: SelectHints option of None \<Rightarrow> (mint ?p, maxt ?p) | Some h \<Rightarrow> (Start h, End h)))
                (snd (case None :: SelectHints option of None \<Rightarrow> (mint ?p, maxt ?p) | Some h \<Rightarrow> (Start h, End h)))
                [] [] (start 9) =
              (Inr sets, snd (Select example_extern ?p False None [] (start 9)))"
      and r: "no_shared_labels sets \<longrightarrow> mset ?res = mset (concat sets)"
    by blast
  from s loop have "sets = ?sets" by simp
  with r ns have "mset ?res = mset (concat ?sets)" by blast
  with run loop ns show ?thesis by (intro conjI)
qed

text \<open>
  The result is not the concatenation where two blocks hold the same label set at the
  front. The blocks C and B each hold the series \<open>job=x\<close>; with \<open>sorted = false\<close> the
  result is one merged series, not the two series of the concatenation.
\<close>

theorem Select_unsorted_not_concatenation:
  "fst (Select_blocks example_extern [block_C, block_B] False 0 199 [] [] (start 9)) =
     Inr [[series [(''job'', ''x'')] [(0, 99)]], [series [(''job'', ''x'')] [(100, 199)]]] \<and>
   fst (Select example_extern \<lparr>mint = 0, maxt = 199, blocks = [block_C, block_B]\<rparr> False None [] (start 9)) =
     Inr [series [(''job'', ''x'')] [(0, 99), (100, 199)]] \<and>
   fst (Select example_extern \<lparr>mint = 0, maxt = 199, blocks = [block_C, block_B]\<rparr> False None [] (start 9)) \<noteq>
     Inr (concat [[series [(''job'', ''x'')] [(0, 99)]], [series [(''job'', ''x'')] [(100, 199)]]])"
  by (simp add: run_defs example_defs nth_Cons' merge_run)

section \<open>The window of a query\<close>





end
